theory Spec2Isabelle
  imports Main
begin

unbundle bit_operations_syntax

section \<open>The driver's view of the browser\<close>

text \<open>
  The sources modelled are \<^verbatim>\<open>input.go\<close> (Keyboard, KeyActions, Mouse) and
  \<^verbatim>\<open>page.go\<close> (Navigate, Close, Screenshot, WaitRequestIdle, WaitStable,
  initEvents). Every method of the Go code talks to the browser through
  \<^verbatim>\<open>X{...}.Call(p)\<close>; the model threads one \<open>state\<close> record through the
  methods, appends each request to \<open>calls\<close> and asks a \<open>browser\<close> function for
  the reply. The browser sees the requests issued before, so its replies may depend on the
  history.
\<close>

type_synonym key = int
  \<comment> \<open>\<^verbatim>\<open>input.Key\<close>, a rune\<close>

type_synonym InputMouseButton = string
  \<comment> \<open>\<^verbatim>\<open>proto.InputMouseButton\<close>, a string type\<close>

type_synonym Point = "int \<times> int"
  \<comment> \<open>\<^verbatim>\<open>proto.Point\<close>; the coordinates are floats in the source and are only
      passed through here\<close>

datatype error =
    ErrCanceled
  | ErrNotAttachedToActivePage
  | ErrRemote string
  | ErrorString string
  | NavigationError string
  | PageCloseCanceledError

datatype InputDispatchKeyEventType = KeyDown | KeyUp

datatype InputDispatchMouseEventType = MousePressed | MouseReleased

record EmulationSetDeviceMetricsOverride =
  Width :: int
  Height :: int
  DeviceScaleFactor :: int
  Mobile :: bool

text \<open>
  The requests the modelled methods issue. \<open>InputDispatchKeyEvent t k ms\<close> is the
  request built by \<^verbatim>\<open>k.Encode(t, ms)\<close>; \<open>InputDispatchMouseEvent t b bs n ms p\<close>
  has \<^verbatim>\<open>Button: b\<close>, \<^verbatim>\<open>Buttons\<close> encoded from the list \<open>bs\<close> by
  \<^verbatim>\<open>input.EncodeMouseButton\<close>, \<^verbatim>\<open>ClickCount: n\<close>, \<^verbatim>\<open>Modifiers: ms\<close>
  and the position \<open>p\<close>. \<open>PageCaptureScreenshot r\<close> carries the caller's request
  \<open>r\<close> as an opaque string.
\<close>

datatype cdp_request =
    PageStopLoading
  | PageNavigate string
  | PageClose
  | PageGetLayoutMetrics
  | PageCaptureScreenshot string
  | EmulationSetDeviceMetrics EmulationSetDeviceMetricsOverride
  | EmulationClearDeviceMetricsOverride
  | InputDispatchKeyEvent InputDispatchKeyEventType key int
  | InputDispatchMouseEvent InputDispatchMouseEventType InputMouseButton
      "InputMouseButton list" int int Point

text \<open>
  A reply is decoded field by field into the result struct of the request; a field the
  method does not read is ignored.
\<close>

record cdp_result =
  ErrorText :: string
  CSSContentSize :: "(int \<times> int) option"
  Data :: string

type_synonym browser = "cdp_request list \<Rightarrow> cdp_request \<Rightarrow> error + cdp_result"

text \<open>
  The mutable state the methods share: the requests sent so far, \<^verbatim>\<open>Keyboard.pressed\<close>,
  \<^verbatim>\<open>Mouse.pos\<close> and \<^verbatim>\<open>Mouse.buttons\<close>, the store of JS context slots
  (\<^verbatim>\<open>jsCtxID\<close> is a pointer shared between a page and its clones, so the slots
  are addressed), and whether \<^verbatim>\<open>cleanupStates\<close> has run.
\<close>

record state =
  calls :: "cdp_request list"
  pressed :: "key set"
  pos :: Point
  buttons :: "InputMouseButton list"
  jsCtx :: "nat \<Rightarrow> string"
  cleaned :: bool

record Page =
  TargetID :: string
  SessionID :: string
  jsCtxID :: nat
  root_jsCtxID :: nat

definition Call :: "browser \<Rightarrow> cdp_request \<Rightarrow> state \<Rightarrow> (error + cdp_result) \<times> state" where
  "Call br req s = (br (calls s) req, s\<lparr>calls := calls s @ [req]\<rparr>)"

definition err_of :: "error + cdp_result \<Rightarrow> error option" where
  "err_of r = (case r of Inl e \<Rightarrow> Some e | Inr _ \<Rightarrow> None)"

section \<open>Keyboard\<close>

text \<open>
  \<^verbatim>\<open>Keyboard.modifiers\<close> ors \<^verbatim>\<open>key.Modifier()\<close> over the pressed keys. The range
  over a Go map has no fixed order; the model takes the keys in increasing order, and
  \<open>modifiers_any_order\<close> below shows that the order does not matter.
  \<^verbatim>\<open>Key.Modifier\<close> is in \<^verbatim>\<open>lib/input\<close>; it is the parameter \<open>M\<close>.
\<close>

definition modifiers_of :: "(key \<Rightarrow> int) \<Rightarrow> key list \<Rightarrow> int" where
  "modifiers_of M ks = fold (\<lambda>k ms. ms OR M k) ks 0"

definition modifiers :: "(key \<Rightarrow> int) \<Rightarrow> state \<Rightarrow> int" where
  "modifiers M k = modifiers_of M (sorted_list_of_set (pressed k))"

definition getModifiers :: "(key \<Rightarrow> int) \<Rightarrow> state \<Rightarrow> int" where
  "getModifiers M k = modifiers M k"

section \<open>Mouse\<close>

definition Mouse_Down ::
  "(key \<Rightarrow> int) \<Rightarrow> browser \<Rightarrow> InputMouseButton \<Rightarrow> int \<Rightarrow> state \<Rightarrow> error option \<times> state" where
  "Mouse_Down M br button clickCount m =
     (let toButtons = buttons m @ [button];
          (r, m') = Call br (InputDispatchMouseEvent MousePressed button toButtons clickCount
                      (getModifiers M m) (pos m)) m
      in case err_of r of
           Some e \<Rightarrow> (Some e, m')
         | None \<Rightarrow> (None, m'\<lparr>buttons := toButtons\<rparr>))"

text \<open>The loop of \<^verbatim>\<open>Mouse.Up\<close>: every entry equal to \<open>button\<close> is skipped.\<close>

fun up_loop :: "InputMouseButton \<Rightarrow> InputMouseButton list \<Rightarrow> InputMouseButton list
    \<Rightarrow> InputMouseButton list" where
  "up_loop button [] toButtons = toButtons"
| "up_loop button (btn # rest) toButtons =
     (if btn = button then up_loop button rest toButtons
      else up_loop button rest (toButtons @ [btn]))"

definition Mouse_Up ::
  "(key \<Rightarrow> int) \<Rightarrow> browser \<Rightarrow> InputMouseButton \<Rightarrow> int \<Rightarrow> state \<Rightarrow> error option \<times> state" where
  "Mouse_Up M br button clickCount m =
     (let toButtons = up_loop button (buttons m) [];
          (r, m') = Call br (InputDispatchMouseEvent MouseReleased button toButtons clickCount
                      (getModifiers M m) (pos m)) m
      in case err_of r of
           Some e \<Rightarrow> (Some e, m')
         | None \<Rightarrow> (None, m'\<lparr>buttons := toButtons\<rparr>))"

text \<open>
  A caller's sequence of \<^verbatim>\<open>Down\<close> and \<^verbatim>\<open>Up\<close> calls on one mouse. The caller
  may go on after an error, so the run keeps the state and drops the results.
\<close>

datatype mouse_call = Down InputMouseButton int | Up InputMouseButton int

fun mouse_step :: "(key \<Rightarrow> int) \<Rightarrow> browser \<Rightarrow> mouse_call \<Rightarrow> state \<Rightarrow> error option \<times> state" where
  "mouse_step M br (Down b n) m = Mouse_Down M br b n m"
| "mouse_step M br (Up b n) m = Mouse_Up M br b n m"

fun mouse_run :: "(key \<Rightarrow> int) \<Rightarrow> browser \<Rightarrow> mouse_call list \<Rightarrow> state \<Rightarrow> state" where
  "mouse_run M br [] m = m"
| "mouse_run M br (c # cs) m = mouse_run M br cs (snd (mouse_step M br c m))"

text \<open>
  \<open>no_redown\<close>: along the run, no \<^verbatim>\<open>Down(b)\<close> is issued while \<open>b\<close> is held.
\<close>

fun no_redown :: "(key \<Rightarrow> int) \<Rightarrow> browser \<Rightarrow> mouse_call list \<Rightarrow> state \<Rightarrow> bool" where
  "no_redown M br [] m = True"
| "no_redown M br (Down b n # cs) m =
     (b \<notin> set (buttons m) \<and> no_redown M br cs (snd (Mouse_Down M br b n m)))"
| "no_redown M br (Up b n # cs) m = no_redown M br cs (snd (Mouse_Up M br b n m))"

text \<open>Test doubles: a browser that accepts every call, and one that refuses every call.\<close>

definition ok_result :: cdp_result where
  "ok_result = \<lparr>ErrorText = [], CSSContentSize = None, Data = []\<rparr>"

definition br_ok :: browser where
  "br_ok h req = Inr ok_result"

definition br_fail :: browser where
  "br_fail h req = Inl ErrCanceled"

definition no_mod :: "key \<Rightarrow> int" where
  "no_mod k = 0"

definition init_state :: state where
  "init_state = \<lparr>calls = [], pressed = {}, pos = (0, 0), buttons = [],
     jsCtx = (\<lambda>a. []), cleaned = False\<rparr>"


section \<open>Keyboard: Press, Release, Type\<close>

text \<open>
  \<^verbatim>\<open>Press\<close> and \<^verbatim>\<open>Release\<close> begin with
  \<^verbatim>\<open>defer k.page.tryTrace(TraceTypeInput, "..."+key.Info().Code)()\<close>. The argument is
  evaluated there, before the lock is taken and before the pressed-set is read, and
  \<^verbatim>\<open>key.Info()\<close> panics for a key that the key map of \<^verbatim>\<open>lib/input\<close> does not
  hold. That table is the parameter \<open>Info\<close>: \<open>Info key = None\<close> is the panic,
  \<open>Some code\<close> the entry's \<^verbatim>\<open>Code\<close>. A panic is not a returned error, so a method
  ends in \<open>Panic\<close> or in \<open>Return err\<close>. The tracing itself and
  \<^verbatim>\<open>trySlowMotion\<close> are observers and left out. The lock is held over the rest of the
  method, so a method is one step of the model.
\<close>

datatype result = Panic | Return "error option"

definition Keyboard_Press ::
  "(key \<Rightarrow> string option) \<Rightarrow> (key \<Rightarrow> int) \<Rightarrow> browser \<Rightarrow> key \<Rightarrow> state \<Rightarrow> result \<times> state" where
  "Keyboard_Press Info M br key k =
     (case Info key of
        None \<Rightarrow> (Panic, k)
      | Some code \<Rightarrow>
          (let k1 = k\<lparr>pressed := insert key (pressed k)\<rparr>;
               (r, k2) = Call br (InputDispatchKeyEvent KeyDown key (modifiers M k1)) k1
           in (Return (err_of r), k2)))"

definition Keyboard_Release ::
  "(key \<Rightarrow> string option) \<Rightarrow> (key \<Rightarrow> int) \<Rightarrow> browser \<Rightarrow> key \<Rightarrow> state \<Rightarrow> result \<times> state" where
  "Keyboard_Release Info M br key k =
     (case Info key of
        None \<Rightarrow> (Panic, k)
      | Some code \<Rightarrow>
          (if key \<notin> pressed k then (Return None, k)
           else
             let k1 = k\<lparr>pressed := pressed k - {key}\<rparr>;
                 (r, k2) = Call br (InputDispatchKeyEvent KeyUp key (modifiers M k1)) k1
             in (Return (err_of r), k2)))"

text \<open>
  \<^verbatim>\<open>Type\<close> returns at the first error; a panic of \<^verbatim>\<open>Press\<close> or \<^verbatim>\<open>Release\<close>
  passes through it.
\<close>

fun Keyboard_Type ::
  "(key \<Rightarrow> string option) \<Rightarrow> (key \<Rightarrow> int) \<Rightarrow> browser \<Rightarrow> key list \<Rightarrow> state
     \<Rightarrow> result \<times> state" where
  "Keyboard_Type Info M br [] k = (Return None, k)"
| "Keyboard_Type Info M br (key # keys) k =
     (case Keyboard_Press Info M br key k of
        (Panic, k1) \<Rightarrow> (Panic, k1)
      | (Return (Some e), k1) \<Rightarrow> (Return (Some e), k1)
      | (Return None, k1) \<Rightarrow>
          (case Keyboard_Release Info M br key k1 of
             (Panic, k2) \<Rightarrow> (Panic, k2)
           | (Return (Some e), k2) \<Rightarrow> (Return (Some e), k2)
           | (Return None, k2) \<Rightarrow> Keyboard_Type Info M br keys k2))"

text \<open>
  A caller's sequence of \<^verbatim>\<open>Press\<close> and \<^verbatim>\<open>Release\<close> calls on one keyboard. As
  for the mouse, the caller may go on after a returned error; a panic ends the run.
\<close>

datatype keyboard_call = Press key | Release key

fun keyboard_step ::
  "(key \<Rightarrow> string option) \<Rightarrow> (key \<Rightarrow> int) \<Rightarrow> browser \<Rightarrow> keyboard_call \<Rightarrow> state
     \<Rightarrow> result \<times> state" where
  "keyboard_step Info M br (Press key) k = Keyboard_Press Info M br key k"
| "keyboard_step Info M br (Release key) k = Keyboard_Release Info M br key k"

fun keyboard_run ::
  "(key \<Rightarrow> string option) \<Rightarrow> (key \<Rightarrow> int) \<Rightarrow> browser \<Rightarrow> keyboard_call list \<Rightarrow> state
     \<Rightarrow> state" where
  "keyboard_run Info M br [] k = k"
| "keyboard_run Info M br (c # cs) k =
     (case keyboard_step Info M br c k of
        (Panic, k') \<Rightarrow> k'
      | (Return e, k') \<Rightarrow> keyboard_run Info M br cs k')"

text \<open>
  A key map and a \<^verbatim>\<open>Modifier\<close> function for the examples, with three keys of
  \<^verbatim>\<open>lib/input\<close>: 97 is \<^verbatim>\<open>KeyA\<close>, 528 is \<^verbatim>\<open>ShiftLeft\<close> (mask 8) and 529 is
  \<^verbatim>\<open>ControlLeft\<close> (mask 2). Every other key is undefined in this map.
\<close>

definition test_Info :: "key \<Rightarrow> string option" where
  "test_Info k =
     (if k = 97 then Some ''KeyA''
      else if k = 528 then Some ''ShiftLeft''
      else if k = 529 then Some ''ControlLeft''
      else None)"

definition test_mod :: "key \<Rightarrow> int" where
  "test_mod k = (if k = 528 then 8 else if k = 529 then 2 else 0)"

section \<open>KeyActions\<close>

datatype KeyActionType = KeyActionPress | KeyActionRelease | KeyActionTypeKey

datatype KeyAction = KeyAction (Type: KeyActionType) (Key: key)

text \<open>The first loop of \<^verbatim>\<open>balance\<close>: the map \<open>h\<close> of the last action per key.\<close>

fun balance_h :: "KeyAction list \<Rightarrow> (key \<rightharpoonup> bool) \<Rightarrow> (key \<rightharpoonup> bool)" where
  "balance_h [] h = h"
| "balance_h (a # as) h =
     (case Type a of
        KeyActionPress \<Rightarrow> balance_h as (h(Key a \<mapsto> True))
      | KeyActionRelease \<Rightarrow> balance_h as (h(Key a \<mapsto> False))
      | KeyActionTypeKey \<Rightarrow> balance_h as (h(Key a \<mapsto> False)))"

text \<open>
  The second loop ranges over the map \<open>h\<close>. Go fixes no order for that; the order the
  runtime takes is the list \<open>order\<close>, and \<open>range_order h order\<close> says that it
  visits every key of \<open>h\<close> once.
\<close>

fun balance_append :: "(key \<rightharpoonup> bool) \<Rightarrow> key list \<Rightarrow> KeyAction list \<Rightarrow> KeyAction list" where
  "balance_append h [] actions = actions"
| "balance_append h (key # rest) actions =
     (if h key = Some True
      then balance_append h rest (actions @ [KeyAction KeyActionRelease key])
      else balance_append h rest actions)"

definition range_order :: "(key \<rightharpoonup> bool) \<Rightarrow> key list \<Rightarrow> bool" where
  "range_order h order = (distinct order \<and> set order = dom h)"

definition balance :: "key list \<Rightarrow> KeyAction list \<Rightarrow> KeyAction list" where
  "balance order actions = balance_append (balance_h actions Map.empty) order actions"

fun Do_loop ::
  "(key \<Rightarrow> string option) \<Rightarrow> (key \<Rightarrow> int) \<Rightarrow> browser \<Rightarrow> KeyAction list \<Rightarrow> state
     \<Rightarrow> result \<times> state" where
  "Do_loop Info M br [] k = (Return None, k)"
| "Do_loop Info M br (a # as) k =
     (case (case Type a of
              KeyActionPress \<Rightarrow> Keyboard_Press Info M br (Key a) k
            | KeyActionRelease \<Rightarrow> Keyboard_Release Info M br (Key a) k
            | KeyActionTypeKey \<Rightarrow> Keyboard_Type Info M br [Key a] k) of
        (Panic, k') \<Rightarrow> (Panic, k')
      | (Return (Some e), k') \<Rightarrow> (Return (Some e), k')
      | (Return None, k') \<Rightarrow> Do_loop Info M br as k')"

definition KeyActions_Do ::
  "(key \<Rightarrow> string option) \<Rightarrow> (key \<Rightarrow> int) \<Rightarrow> browser \<Rightarrow> key list \<Rightarrow> KeyAction list \<Rightarrow> state
     \<Rightarrow> result \<times> state" where
  "KeyActions_Do Info M br order actions k = Do_loop Info M br (balance order actions) k"

text \<open>The last action an action list records for a key, if any.\<close>

definition last_action :: "KeyAction list \<Rightarrow> key \<Rightarrow> KeyActionType option" where
  "last_action actions k =
     (case filter (\<lambda>a. Key a = k) actions of [] \<Rightarrow> None | x # xs \<Rightarrow> Some (Type (last (x # xs))))"

text \<open>
  What one action makes of the pressed-set when its calls succeed: \<^verbatim>\<open>Press\<close> adds the
  key, \<^verbatim>\<open>Release\<close> and \<^verbatim>\<open>Type\<close> leave it out.
\<close>

definition pressed_step :: "KeyAction \<Rightarrow> key set \<Rightarrow> key set" where
  "pressed_step a P = (if Type a = KeyActionPress then insert (Key a) P else P - {Key a})"

section \<open>Page.Navigate\<close>

definition unsetJSCtxID :: "nat \<Rightarrow> state \<Rightarrow> state" where
  \<comment> \<open>Modelled from the spec: \<^verbatim>\<open>unsetJSCtxID\<close> is defined outside \<^verbatim>\<open>page.go\<close>;
      the spec has it clear the JS context handle, here the slot the pointer names.\<close>
  "unsetJSCtxID a s = s\<lparr>jsCtx := (jsCtx s)(a := [])\<rparr>"

definition StopLoading :: "browser \<Rightarrow> state \<Rightarrow> error option \<times> state" where
  "StopLoading br s = (let (r, s') = Call br PageStopLoading s in (err_of r, s'))"

definition Navigate :: "browser \<Rightarrow> Page \<Rightarrow> string \<Rightarrow> state \<Rightarrow> error option \<times> state" where
  "Navigate br p url s =
     (let url' = (if url = [] then ''about:blank'' else url);
          (_, s1) = StopLoading br s;
          (r, s2) = Call br (PageNavigate url') s1
      in case r of
           Inl err \<Rightarrow> (Some err, s2)
         | Inr res \<Rightarrow>
             if ErrorText res \<noteq> [] then (Some (NavigationError (ErrorText res)), s2)
             else (None, unsetJSCtxID (root_jsCtxID p) s2))"

text \<open>
  Test doubles: a browser whose \<^verbatim>\<open>Page.navigate\<close> answers with an error text, one that
  refuses only \<^verbatim>\<open>Page.stopLoading\<close>, an iframe page whose root has slot 0, and a
  state where every slot holds a context id.
\<close>

definition br_nav_error :: browser where
  "br_nav_error h req =
     (case req of
        PageStopLoading \<Rightarrow> Inl (ErrRemote ''no load'')
      | PageNavigate u \<Rightarrow> Inr (ok_result\<lparr>ErrorText := ''net::ERR_NAME_NOT_RESOLVED''\<rparr>)
      | _ \<Rightarrow> Inr ok_result)"

definition br_stop_fails :: browser where
  "br_stop_fails h req =
     (case req of PageStopLoading \<Rightarrow> Inl (ErrRemote ''no load'') | _ \<Rightarrow> Inr ok_result)"

definition page1 :: Page where
  "page1 = \<lparr>TargetID = ''T1'', SessionID = ''S1'', jsCtxID = 1, root_jsCtxID = 0\<rparr>"

definition loaded_state :: state where
  "loaded_state = init_state\<lparr>jsCtx := (\<lambda>a. ''ctx'')\<rparr>"

section \<open>Events\<close>

datatype event =
    TargetTargetDestroyed string
  | TargetDetachedFromTarget string
  | PageJavascriptDialogClosed bool
  | NetworkRequestWillBeSent string string string
  | NetworkLoadingFinished string
  | NetworkLoadingFailed string
  | OtherEvent string

text \<open>
  An envelope: the session it came on and its payload. \<open>TargetTargetDestroyed t\<close> has
  \<^verbatim>\<open>TargetID\<close> \<open>t\<close>, \<open>TargetDetachedFromTarget s\<close> has \<^verbatim>\<open>SessionID\<close> \<open>s\<close>,
  \<open>PageJavascriptDialogClosed r\<close> has \<^verbatim>\<open>Result\<close> \<open>r\<close>,
  \<open>NetworkRequestWillBeSent i t u\<close> has \<^verbatim>\<open>RequestID\<close> \<open>i\<close>, \<^verbatim>\<open>Type\<close> \<open>t\<close> and
  \<^verbatim>\<open>Request.URL\<close> \<open>u\<close>.
\<close>

datatype Message = Message (msgSessionID: string) (msgEvent: event)

definition Load_TargetTargetDestroyed :: "Message \<Rightarrow> string option" where
  \<comment> \<open>Modelled from the spec: \<^verbatim>\<open>Message.Load\<close> is defined outside \<^verbatim>\<open>page.go\<close>; an envelope
      decodes into the event shape asked for when it is of that shape, and the call with a
      pointer fills the pointed-to struct.\<close>
  "Load_TargetTargetDestroyed msg =
     (case msgEvent msg of TargetTargetDestroyed t \<Rightarrow> Some t | _ \<Rightarrow> None)"

definition Load_TargetDetachedFromTarget :: "Message \<Rightarrow> string option" where
  \<comment> \<open>Modelled from the spec: as above, for \<^verbatim>\<open>msg.Load(&detached)\<close>.\<close>
  "Load_TargetDetachedFromTarget msg =
     (case msgEvent msg of TargetDetachedFromTarget s \<Rightarrow> Some s | _ \<Rightarrow> None)"

definition Load_PageJavascriptDialogClosed :: "Message \<Rightarrow> bool option" where
  \<comment> \<open>Modelled from the spec: as above, for \<^verbatim>\<open>msg.Load(&closed)\<close>.\<close>
  "Load_PageJavascriptDialogClosed msg =
     (case msgEvent msg of PageJavascriptDialogClosed r \<Rightarrow> Some r | _ \<Rightarrow> None)"

section \<open>Page.Close\<close>

text \<open>
  The first loop calls \<^verbatim>\<open>Page.close\<close> until the browser answers with something other
  than "not attached to an active page". Nothing bounds the retries, so the loop is a
  partial function: \<open>None\<close> is a loop that never ends.
\<close>

partial_function (option) close_call :: "browser \<Rightarrow> state \<Rightarrow> (error option \<times> state) option" where
  "close_call br s =
     (case Call br PageClose s of
        (Inl err, s') \<Rightarrow>
          if err = ErrNotAttachedToActivePage then close_call br s' else Some (Some err, s')
      | (Inr _, s') \<Rightarrow> Some (None, s'))"

text \<open>
  The second loop reads \<open>messages\<close>, the envelopes the subscription delivers until the
  loop breaks or the channel closes; it returns \<^verbatim>\<open>success\<close>.
\<close>

fun close_loop :: "Page \<Rightarrow> Message list \<Rightarrow> bool \<Rightarrow> bool" where
  "close_loop p [] success = success"
| "close_loop p (msg # rest) success =
     (case Load_TargetTargetDestroyed msg of
        Some destroyed \<Rightarrow>
          if destroyed = TargetID p then success else close_loop p rest success
      | None \<Rightarrow>
          (case (if msgSessionID msg = SessionID p then Load_PageJavascriptDialogClosed msg
                 else None) of
             Some closed \<Rightarrow> if \<not> closed then closed else close_loop p rest closed
           | None \<Rightarrow> close_loop p rest success))"

definition cleanupStates :: "state \<Rightarrow> state" where
  \<comment> \<open>Modelled from the spec: \<^verbatim>\<open>cleanupStates\<close> is defined outside \<^verbatim>\<open>page.go\<close>;
      the model records that the cleanup ran.\<close>
  "cleanupStates s = s\<lparr>cleaned := True\<rparr>"

definition Close ::
  "browser \<Rightarrow> Page \<Rightarrow> Message list \<Rightarrow> state \<Rightarrow> (error option \<times> state) option" where
  "Close br p messages s =
     (case close_call br s of
        None \<Rightarrow> None
      | Some (Some err, s') \<Rightarrow> Some (Some err, s')
      | Some (None, s') \<Rightarrow>
          if close_loop p messages True then Some (None, cleanupStates s')
          else Some (Some PageCloseCanceledError, s'))"

text \<open>
  The two events that end the second loop: the destruction of the page's target, and a
  dialog closed with result false on the page's session.
\<close>

definition is_destroyed :: "Page \<Rightarrow> Message \<Rightarrow> bool" where
  "is_destroyed p msg = (msgEvent msg = TargetTargetDestroyed (TargetID p))"

definition is_denied :: "Page \<Rightarrow> Message \<Rightarrow> bool" where
  "is_denied p msg =
     (msgSessionID msg = SessionID p \<and> msgEvent msg = PageJavascriptDialogClosed False)"

text \<open>
  A test double: the browser answers the first \<^verbatim>\<open>Page.close\<close> with "not attached to
  an active page" and accepts every later call.
\<close>

definition br_retry :: browser where
  "br_retry h req =
     (if req = PageClose \<and> PageClose \<notin> set h then Inl ErrNotAttachedToActivePage
      else Inr ok_result)"

section \<open>Page.initEvents\<close>

text \<open>
  The dispatcher reads the browser's events until it cancels the page's scope or the
  stream ends. \<^verbatim>\<open>msg.Load(&detached)\<close> passes a pointer and fills
  \<^verbatim>\<open>detached\<close>. \<^verbatim>\<open>msg.Load(destroyed)\<close> passes the struct itself: Go copies it,
  so whatever \<^verbatim>\<open>Load\<close> does, the local \<^verbatim>\<open>destroyed\<close> keeps its zero value and
  \<^verbatim>\<open>destroyed.TargetID\<close> is the empty string. The result of that call is the
  parameter \<open>load_value\<close>.
\<close>

record dispatcher =
  cancelled :: bool
  published :: "Message list"

fun initEvents_loop ::
  "(Message \<Rightarrow> bool) \<Rightarrow> Page \<Rightarrow> Message list \<Rightarrow> dispatcher \<Rightarrow> dispatcher" where
  "initEvents_loop load_value p [] d = d"
| "initEvents_loop load_value p (msg # rest) d =
     (if (case Load_TargetDetachedFromTarget msg of
            Some detached \<Rightarrow> detached = SessionID p
          | None \<Rightarrow> False)
         \<or> (load_value msg \<and> [] = TargetID p)
      then d\<lparr>cancelled := True\<rparr>
      else if msgSessionID msg \<noteq> SessionID p then initEvents_loop load_value p rest d
      else initEvents_loop load_value p rest (d\<lparr>published := published d @ [msg]\<rparr>))"

definition initEvents :: "(Message \<Rightarrow> bool) \<Rightarrow> Page \<Rightarrow> Message list \<Rightarrow> dispatcher" where
  "initEvents load_value p event =
     initEvents_loop load_value p event \<lparr>cancelled = False, published = []\<rparr>"

section \<open>Page.Screenshot\<close>

definition SetViewport ::
  "browser \<Rightarrow> EmulationSetDeviceMetricsOverride option \<Rightarrow> state \<Rightarrow> error option \<times> state" where
  "SetViewport br params s =
     (case params of
        None \<Rightarrow> (let (r, s') = Call br EmulationClearDeviceMetricsOverride s in (err_of r, s'))
      | Some v \<Rightarrow> (let (r, s') = Call br (EmulationSetDeviceMetrics v) s in (err_of r, s')))"

definition zero_view :: EmulationSetDeviceMetricsOverride where
  "zero_view = \<lparr>Width = 0, Height = 0, DeviceScaleFactor = 0, Mobile = False\<rparr>"

text \<open>The deferred function of \<^verbatim>\<open>Screenshot\<close>; both results are dropped.\<close>

definition recover_viewport ::
  "browser \<Rightarrow> bool \<Rightarrow> EmulationSetDeviceMetricsOverride \<Rightarrow> state \<Rightarrow> state" where
  "recover_viewport br isSet oldView s =
     (if \<not> isSet then snd (Call br EmulationClearDeviceMetricsOverride s)
      else snd (SetViewport br (Some oldView) s))"

definition capture :: "browser \<Rightarrow> string \<Rightarrow> state \<Rightarrow> (error + string) \<times> state" where
  "capture br req s =
     (case Call br (PageCaptureScreenshot req) s of
        (Inl err, s') \<Rightarrow> (Inl err, s')
      | (Inr shot, s') \<Rightarrow> (Inr (Data shot), s'))"

text \<open>
  \<open>stored\<close> is what \<^verbatim>\<open>p.LoadState(&oldView)\<close> finds: the device-metrics override set
  before, or none (\<^verbatim>\<open>LoadState\<close> is defined outside \<^verbatim>\<open>page.go\<close>). The content size of the
  layout metrics is carried as the integers \<^verbatim>\<open>int(...)\<close> makes of it.
\<close>

definition Screenshot ::
  "browser \<Rightarrow> EmulationSetDeviceMetricsOverride option \<Rightarrow> bool \<Rightarrow> string option \<Rightarrow> state
     \<Rightarrow> (error + string) \<times> state" where
  "Screenshot br stored fullPage req s =
     (let req' = (case req of None \<Rightarrow> [] | Some r \<Rightarrow> r) in
      if fullPage then
        (case Call br PageGetLayoutMetrics s of
           (Inl err, s1) \<Rightarrow> (Inl err, s1)
         | (Inr metrics, s1) \<Rightarrow>
             (case CSSContentSize metrics of
                None \<Rightarrow> (Inl (ErrorString ''failed to get css content size''), s1)
              | Some (w, h) \<Rightarrow>
                  (let oldView = (case stored of None \<Rightarrow> zero_view | Some v \<Rightarrow> v);
                       isSet = (stored \<noteq> None);
                       view = oldView\<lparr>Width := w, Height := h\<rparr>
                   in case SetViewport br (Some view) s1 of
                        (Some err, s2) \<Rightarrow> (Inl err, s2)
                      | (None, s2) \<Rightarrow>
                          (let (res, s3) = capture br req' s2
                           in (res, recover_viewport br isSet oldView s3)))))
      else capture br req' s)"

text \<open>
  \<open>override_applied\<close>: the full-page path got as far as applying its temporary
  override (the layout metrics came with a content size, and the override call succeeded).
\<close>

definition override_applied ::
  "browser \<Rightarrow> EmulationSetDeviceMetricsOverride option \<Rightarrow> state \<Rightarrow> bool" where
  "override_applied br stored s =
     (case Call br PageGetLayoutMetrics s of
        (Inl err, s1) \<Rightarrow> False
      | (Inr metrics, s1) \<Rightarrow>
          (case CSSContentSize metrics of
             None \<Rightarrow> False
           | Some (w, h) \<Rightarrow>
               fst (SetViewport br
                 (Some ((case stored of None \<Rightarrow> zero_view | Some v \<Rightarrow> v)\<lparr>Width := w, Height := h\<rparr>))
                 s1) = None))"

text \<open>
  Test doubles: a browser that reports a content size of 800 by 3000 and captures, one
  that reports the size and refuses the capture, and a device-metrics override set before.
\<close>

definition br_page :: browser where
  "br_page h req =
     (case req of
        PageGetLayoutMetrics \<Rightarrow> Inr (ok_result\<lparr>CSSContentSize := Some (800, 3000)\<rparr>)
      | PageCaptureScreenshot r \<Rightarrow> Inr (ok_result\<lparr>Data := ''png''\<rparr>)
      | _ \<Rightarrow> Inr ok_result)"

definition br_capture_fails :: browser where
  "br_capture_fails h req =
     (case req of
        PageGetLayoutMetrics \<Rightarrow> Inr (ok_result\<lparr>CSSContentSize := Some (800, 3000)\<rparr>)
      | PageCaptureScreenshot r \<Rightarrow> Inl ErrCanceled
      | _ \<Rightarrow> Inr ok_result)"

definition phone_view :: EmulationSetDeviceMetricsOverride where
  "phone_view = \<lparr>Width = 375, Height = 667, DeviceScaleFactor = 2, Mobile = True\<rparr>"

section \<open>Page.WaitRequestIdle: the event handler\<close>

text \<open>
  The handler's state: \<^verbatim>\<open>waitList\<close>, and how often \<^verbatim>\<open>idleCounter.Add\<close> and
  \<^verbatim>\<open>idleCounter.Done\<close> were called. \<^verbatim>\<open>genRegMatcher(includes, excludes)\<close> is
  defined outside \<^verbatim>\<open>page.go\<close>; its result is the parameter \<open>match\<close>.
\<close>

record idle =
  waitList :: "string \<rightharpoonup> string"
  adds :: nat
  dones :: nat

definition excludeTypes_default :: "string list" where
  "excludeTypes_default = [''WebSocket'', ''EventSource'', ''Media'', ''Image'', ''Font'']"

text \<open>The list used when the caller passes nil for \<^verbatim>\<open>excludeTypes\<close>.\<close>

definition excludeTypes_of :: "string list option \<Rightarrow> string list" where
  "excludeTypes_of excludeTypes =
     (case excludeTypes of None \<Rightarrow> excludeTypes_default | Some ts \<Rightarrow> ts)"

definition checkDone :: "string \<Rightarrow> idle \<Rightarrow> idle" where
  "checkDone i w =
     (if waitList w i \<noteq> None
      then w\<lparr>waitList := (waitList w)(i := None), dones := dones w + 1\<rparr>
      else w)"

fun idle_handler :: "(string \<Rightarrow> bool) \<Rightarrow> string list \<Rightarrow> event \<Rightarrow> idle \<Rightarrow> idle" where
  "idle_handler match excludeTypes (NetworkRequestWillBeSent i ty url) w =
     (if ty \<in> set excludeTypes then w
      else if match url then
        (if waitList w i = None
         then w\<lparr>waitList := (waitList w)(i \<mapsto> url), adds := adds w + 1\<rparr>
         else w)
      else w)"
| "idle_handler match excludeTypes (NetworkLoadingFinished i) w = checkDone i w"
| "idle_handler match excludeTypes (NetworkLoadingFailed i) w = checkDone i w"
| "idle_handler match excludeTypes e w = w"

definition idle_init :: idle where
  "idle_init = \<lparr>waitList = Map.empty, adds = 0, dones = 0\<rparr>"

definition idle_run :: "(string \<Rightarrow> bool) \<Rightarrow> string list \<Rightarrow> event list \<Rightarrow> idle \<Rightarrow> idle" where
  "idle_run match excludeTypes es w = fold (idle_handler match excludeTypes) es w"

text \<open>
  The counting invariant: the calls of \<^verbatim>\<open>Add\<close> not yet matched by a \<^verbatim>\<open>Done\<close>
  are as many as the requests in \<^verbatim>\<open>waitList\<close>.
\<close>

definition idle_inv :: "idle \<Rightarrow> bool" where
  "idle_inv w = (finite (dom (waitList w)) \<and> adds w = dones w + card (dom (waitList w)))"

section \<open>Page.WaitStable\<close>

text \<open>
  \<^verbatim>\<open>utils.All\<close> starts the three functions as goroutines and waits for all of them.
  What the result depends on is the order in which they reach their end, the list
  \<open>finished\<close>. \<^verbatim>\<open>setErr\<close> is a \<^verbatim>\<open>sync.Once\<close>: \<^verbatim>\<open>Do\<close> runs its argument
  the first time it is called and never again.
\<close>

datatype stable_task = TaskWaitLoad | TaskWaitRequestIdle | TaskWaitDOMStable

record once_err =
  fired :: bool
  err :: "error option"

definition setErr_Do :: "error option \<Rightarrow> once_err \<Rightarrow> once_err" where
  "setErr_Do e c = (if fired c then c else \<lparr>fired = True, err = e\<rparr>)"

fun task_end :: "error option \<Rightarrow> error option \<Rightarrow> stable_task \<Rightarrow> once_err \<Rightarrow> once_err" where
  "task_end eLoad eDOM TaskWaitLoad c = setErr_Do eLoad c"
| "task_end eLoad eDOM TaskWaitRequestIdle c = c"
| "task_end eLoad eDOM TaskWaitDOMStable c = setErr_Do eDOM c"

text \<open>
  \<open>rLoad\<close> and \<open>rDOM\<close> are what \<^verbatim>\<open>WaitLoad\<close> and \<^verbatim>\<open>WaitDOMStable\<close> return,
  \<open>None\<close> when the call never returns; \<open>rIdle\<close> says whether the wait of
  \<^verbatim>\<open>WaitRequestIdle\<close> returns. \<^verbatim>\<open>WaitStable\<close> returns once all three have.
\<close>

definition WaitStable ::
  "stable_task list \<Rightarrow> error option option \<Rightarrow> bool \<Rightarrow> error option option \<Rightarrow> error option option" where
  "WaitStable finished rLoad rIdle rDOM =
     (case (rLoad, rIdle, rDOM) of
        (Some eLoad, True, Some eDOM) \<Rightarrow>
          Some (err (fold (task_end eLoad eDOM) finished \<lparr>fired = False, err = None\<rparr>))
      | _ \<Rightarrow> None)"

section \<open>Mouse: the buttons stack\<close>

lemma up_loop_filter: "up_loop b xs acc = acc @ filter (\<lambda>x. x \<noteq> b) xs"
  by (induction xs arbitrary: acc) auto

lemma Mouse_Down_err:
  "br (calls m) (InputDispatchMouseEvent MousePressed b (buttons m @ [b]) n
       (getModifiers M m) (pos m)) = Inl e
   \<Longrightarrow> Mouse_Down M br b n m =
        (Some e, m\<lparr>calls := calls m @ [InputDispatchMouseEvent MousePressed b (buttons m @ [b]) n
                     (getModifiers M m) (pos m)]\<rparr>)"
  by (simp add: Mouse_Down_def Call_def err_of_def Let_def)

lemma Mouse_Down_ok:
  "br (calls m) (InputDispatchMouseEvent MousePressed b (buttons m @ [b]) n
       (getModifiers M m) (pos m)) = Inr r
   \<Longrightarrow> Mouse_Down M br b n m =
        (None, m\<lparr>calls := calls m @ [InputDispatchMouseEvent MousePressed b (buttons m @ [b]) n
                     (getModifiers M m) (pos m)],
                 buttons := buttons m @ [b]\<rparr>)"
  by (simp add: Mouse_Down_def Call_def err_of_def Let_def)

lemma Mouse_Up_err:
  "br (calls m) (InputDispatchMouseEvent MouseReleased b (up_loop b (buttons m) []) n
       (getModifiers M m) (pos m)) = Inl e
   \<Longrightarrow> Mouse_Up M br b n m =
        (Some e, m\<lparr>calls := calls m @ [InputDispatchMouseEvent MouseReleased b
                     (up_loop b (buttons m) []) n (getModifiers M m) (pos m)]\<rparr>)"
  by (simp add: Mouse_Up_def Call_def err_of_def Let_def)

lemma Mouse_Up_ok:
  "br (calls m) (InputDispatchMouseEvent MouseReleased b (up_loop b (buttons m) []) n
       (getModifiers M m) (pos m)) = Inr r
   \<Longrightarrow> Mouse_Up M br b n m =
        (None, m\<lparr>calls := calls m @ [InputDispatchMouseEvent MouseReleased b
                     (up_loop b (buttons m) []) n (getModifiers M m) (pos m)],
                 buttons := up_loop b (buttons m) []\<rparr>)"
  by (simp add: Mouse_Up_def Call_def err_of_def Let_def)

text \<open>
  C10. When the dispatch call of \<^verbatim>\<open>Mouse.Down\<close> or \<^verbatim>\<open>Mouse.Up\<close> returns an error,
  the method returns that error and the buttons stack is the one before the call; when the
  call succeeds, the new stack is committed.
\<close>

theorem mouse_error_keeps_buttons:
  "(br (calls m) (InputDispatchMouseEvent MousePressed b (buttons m @ [b]) n
        (getModifiers M m) (pos m)) = Inl e \<longrightarrow>
      fst (Mouse_Down M br b n m) = Some e \<and> buttons (snd (Mouse_Down M br b n m)) = buttons m)
   \<and> (br (calls m) (InputDispatchMouseEvent MouseReleased b (up_loop b (buttons m) []) n
        (getModifiers M m) (pos m)) = Inl e \<longrightarrow>
      fst (Mouse_Up M br b n m) = Some e \<and> buttons (snd (Mouse_Up M br b n m)) = buttons m)
   \<and> (br (calls m) (InputDispatchMouseEvent MousePressed b (buttons m @ [b]) n
        (getModifiers M m) (pos m)) = Inr r \<longrightarrow>
      fst (Mouse_Down M br b n m) = None \<and>
      buttons (snd (Mouse_Down M br b n m)) = buttons m @ [b])
   \<and> (br (calls m) (InputDispatchMouseEvent MouseReleased b (up_loop b (buttons m) []) n
        (getModifiers M m) (pos m)) = Inr r \<longrightarrow>
      fst (Mouse_Up M br b n m) = None \<and>
      buttons (snd (Mouse_Up M br b n m)) = up_loop b (buttons m) [])"
proof (intro conjI impI)
  assume a: "br (calls m) (InputDispatchMouseEvent MousePressed b (buttons m @ [b]) n
        (getModifiers M m) (pos m)) = Inl e"
  show "fst (Mouse_Down M br b n m) = Some e" using a by (simp add: Mouse_Down_err)
  show "buttons (snd (Mouse_Down M br b n m)) = buttons m" using a by (simp add: Mouse_Down_err)
next
  assume a: "br (calls m) (InputDispatchMouseEvent MouseReleased b (up_loop b (buttons m) []) n
        (getModifiers M m) (pos m)) = Inl e"
  show "fst (Mouse_Up M br b n m) = Some e" using a by (simp add: Mouse_Up_err)
  show "buttons (snd (Mouse_Up M br b n m)) = buttons m" using a by (simp add: Mouse_Up_err)
next
  assume a: "br (calls m) (InputDispatchMouseEvent MousePressed b (buttons m @ [b]) n
        (getModifiers M m) (pos m)) = Inr r"
  show "fst (Mouse_Down M br b n m) = None" using a by (simp add: Mouse_Down_ok)
  show "buttons (snd (Mouse_Down M br b n m)) = buttons m @ [b]"
    using a by (simp add: Mouse_Down_ok)
next
  assume a: "br (calls m) (InputDispatchMouseEvent MouseReleased b (up_loop b (buttons m) []) n
        (getModifiers M m) (pos m)) = Inr r"
  show "fst (Mouse_Up M br b n m) = None" using a by (simp add: Mouse_Up_ok)
  show "buttons (snd (Mouse_Up M br b n m)) = up_loop b (buttons m) []"
    using a by (simp add: Mouse_Up_ok)
qed

text \<open>
  The theorem at a mouse that holds the left button, with a browser that refuses every
  call and with one that accepts every call.
\<close>

theorem mouse_error_keeps_buttons_witness:
  "fst (Mouse_Down no_mod br_fail ''right'' 1 (init_state\<lparr>buttons := [''left'']\<rparr>))
     = Some ErrCanceled
   \<and> buttons (snd (Mouse_Down no_mod br_fail ''right'' 1 (init_state\<lparr>buttons := [''left'']\<rparr>)))
     = [''left'']
   \<and> fst (Mouse_Up no_mod br_fail ''left'' 1 (init_state\<lparr>buttons := [''left'']\<rparr>))
     = Some ErrCanceled
   \<and> buttons (snd (Mouse_Up no_mod br_fail ''left'' 1 (init_state\<lparr>buttons := [''left'']\<rparr>)))
     = [''left'']
   \<and> buttons (snd (Mouse_Down no_mod br_ok ''right'' 1 (init_state\<lparr>buttons := [''left'']\<rparr>)))
     = [''left'', ''right'']
   \<and> buttons (snd (Mouse_Up no_mod br_ok ''left'' 1 (init_state\<lparr>buttons := [''left'']\<rparr>)))
     = []"
  using
    mouse_error_keeps_buttons [of br_fail "init_state\<lparr>buttons := [''left'']\<rparr>" "''right''" 1
      no_mod ErrCanceled ok_result]
    mouse_error_keeps_buttons [of br_fail "init_state\<lparr>buttons := [''left'']\<rparr>" "''left''" 1
      no_mod ErrCanceled ok_result]
    mouse_error_keeps_buttons [of br_ok "init_state\<lparr>buttons := [''left'']\<rparr>" "''right''" 1
      no_mod ErrCanceled ok_result]
    mouse_error_keeps_buttons [of br_ok "init_state\<lparr>buttons := [''left'']\<rparr>" "''left''" 1
      no_mod ErrCanceled ok_result]
  by (simp add: br_fail_def br_ok_def init_state_def)

lemma Mouse_Down_buttons_cases:
  "buttons (snd (Mouse_Down M br b n m)) = buttons m \<or>
   buttons (snd (Mouse_Down M br b n m)) = buttons m @ [b]"
  by (cases "br (calls m) (InputDispatchMouseEvent MousePressed b (buttons m @ [b]) n
        (getModifiers M m) (pos m))")
     (simp_all add: Mouse_Down_err Mouse_Down_ok)

lemma Mouse_Up_buttons_cases:
  "buttons (snd (Mouse_Up M br b n m)) = buttons m \<or>
   buttons (snd (Mouse_Up M br b n m)) = filter (\<lambda>x. x \<noteq> b) (buttons m)"
  by (cases "br (calls m) (InputDispatchMouseEvent MouseReleased b (up_loop b (buttons m) []) n
        (getModifiers M m) (pos m))")
     (simp_all add: Mouse_Up_err Mouse_Up_ok up_loop_filter)

lemma Mouse_Up_result:
  "fst (Mouse_Up M br b n m) = None \<Longrightarrow>
   buttons (snd (Mouse_Up M br b n m)) = filter (\<lambda>x. x \<noteq> b) (buttons m)"
  by (cases "br (calls m) (InputDispatchMouseEvent MouseReleased b (up_loop b (buttons m) []) n
        (getModifiers M m) (pos m))")
     (simp_all add: Mouse_Up_err Mouse_Up_ok up_loop_filter)

lemma filter_distinct_remove1: "distinct xs \<Longrightarrow> filter (\<lambda>x. x \<noteq> b) xs = remove1 b xs"
  by (induction xs) (auto simp: remove1_idem)

lemma mouse_run_distinct:
  "distinct (buttons m) \<Longrightarrow> no_redown M br cs m \<Longrightarrow> distinct (buttons (mouse_run M br cs m))"
proof (induction cs arbitrary: m)
  case Nil
  then show ?case by simp
next
  case (Cons c cs)
  show ?case
  proof (cases c)
    case (Down b n)
    with Cons.prems have nb: "b \<notin> set (buttons m)"
      and nr: "no_redown M br cs (snd (Mouse_Down M br b n m))" by simp_all
    from Mouse_Down_buttons_cases [of M br b n m] Cons.prems(1) nb
    have "distinct (buttons (snd (Mouse_Down M br b n m)))" by auto
    from Cons.IH [OF this nr] Down show ?thesis by simp
  next
    case (Up b n)
    with Cons.prems have nr: "no_redown M br cs (snd (Mouse_Up M br b n m))" by simp
    from Mouse_Up_buttons_cases [of M br b n m] Cons.prems(1)
    have "distinct (buttons (snd (Mouse_Up M br b n m)))" by auto
    from Cons.IH [OF this nr] Up show ?thesis by simp
  qed
qed

lemma no_redown_take: "no_redown M br cs m \<Longrightarrow> no_redown M br (take k cs) m"
proof (induction cs arbitrary: m k)
  case Nil
  then show ?case by simp
next
  case (Cons c cs)
  then show ?case by (cases k; cases c) auto
qed

text \<open>
  C6, as the claim states it, fails: \<^verbatim>\<open>Down\<close> appends without looking at the stack, so
  two \<^verbatim>\<open>Down\<close> calls for the left button leave it there twice, and the \<^verbatim>\<open>Up\<close>
  that follows removes both entries, not the first one.
\<close>

theorem mouse_buttons_duplicates:
  "\<not> distinct (buttons (mouse_run no_mod br_ok [Down ''left'' 1, Down ''left'' 1] init_state))
   \<and> buttons (mouse_run no_mod br_ok [Down ''left'' 1, Down ''left'' 1, Up ''left'' 1] init_state)
       \<noteq> remove1 ''left''
           (buttons (mouse_run no_mod br_ok [Down ''left'' 1, Down ''left'' 1] init_state))"
  by (simp add: Mouse_Down_def Mouse_Up_def Call_def err_of_def br_ok_def init_state_def Let_def)

text \<open>
  C6, amended. In every run of \<^verbatim>\<open>Down\<close> and \<^verbatim>\<open>Up\<close> calls that never issues
  \<^verbatim>\<open>Down(b)\<close> while \<open>b\<close> is held, the stack has no two equal entries at any point
  (after any \<open>k\<close> calls), whatever the browser answers. A successful \<^verbatim>\<open>Up(b)\<close>
  removes every entry equal to \<open>b\<close> and keeps the order of the others; on a stack without
  duplicates that is the removal of the first entry equal to \<open>b\<close>.
\<close>

theorem mouse_buttons_stack:
  "(distinct (buttons m) \<and> no_redown M br cs m \<longrightarrow>
      distinct (buttons (mouse_run M br (take k cs) m)))
   \<and> (fst (Mouse_Up M br b n m) = None \<longrightarrow>
        buttons (snd (Mouse_Up M br b n m)) = filter (\<lambda>x. x \<noteq> b) (buttons m))
   \<and> (distinct (buttons m) \<and> fst (Mouse_Up M br b n m) = None \<longrightarrow>
        buttons (snd (Mouse_Up M br b n m)) = remove1 b (buttons m))"
  using mouse_run_distinct [OF _ no_redown_take] Mouse_Up_result filter_distinct_remove1
  by metis

theorem mouse_buttons_stack_witness:
  "distinct (buttons init_state)
   \<and> no_redown no_mod br_ok
       [Down ''left'' 1, Down ''right'' 1, Up ''left'' 1, Down ''left'' 1] init_state
   \<and> distinct (buttons (mouse_run no_mod br_ok
       (take 4 [Down ''left'' 1, Down ''right'' 1, Up ''left'' 1, Down ''left'' 1]) init_state))
   \<and> buttons (mouse_run no_mod br_ok
       [Down ''left'' 1, Down ''right'' 1, Up ''left'' 1, Down ''left'' 1] init_state)
       = [''right'', ''left'']
   \<and> fst (Mouse_Up no_mod br_ok ''left'' 1 (init_state\<lparr>buttons := [''left'', ''right'']\<rparr>)) = None
   \<and> buttons (snd (Mouse_Up no_mod br_ok ''left'' 1
       (init_state\<lparr>buttons := [''left'', ''right'']\<rparr>))) = [''right'']"
  using
    mouse_buttons_stack [of "init_state\<lparr>buttons := [''left'', ''right'']\<rparr>" no_mod br_ok "[]" 0
      "''left''" 1]
    mouse_buttons_stack [of init_state no_mod br_ok
      "[Down ''left'' 1, Down ''right'' 1, Up ''left'' 1, Down ''left'' 1]" 4 "''left''" 1]
  by (simp add: Mouse_Down_def Mouse_Up_def Call_def err_of_def br_ok_def init_state_def Let_def)

section \<open>Page.Navigate: the contract\<close>

lemma Navigate_eq:
  "Navigate br p url s =
     (let url' = (if url = [] then ''about:blank'' else url);
          s2 = s\<lparr>calls := calls s @ [PageStopLoading, PageNavigate url']\<rparr>
      in case br (calls s @ [PageStopLoading]) (PageNavigate url') of
           Inl e \<Rightarrow> (Some e, s2)
         | Inr res \<Rightarrow>
             if ErrorText res \<noteq> [] then (Some (NavigationError (ErrorText res)), s2)
             else (None, s2\<lparr>jsCtx := (jsCtx s2)(root_jsCtxID p := [])\<rparr>))"
  by (simp add: Navigate_def StopLoading_def Call_def unsetJSCtxID_def Let_def split: sum.splits)

text \<open>
  C4. \<^verbatim>\<open>Navigate(url)\<close> sends \<^verbatim>\<open>Page.stopLoading\<close> and then
  \<^verbatim>\<open>Page.navigate\<close>, with \<open>about:blank\<close> for the empty url, whatever the browser
  answers to the first. A reply with a non-empty error text gives
  \<^verbatim>\<open>NavigationError\<close> with that text and leaves every JS context slot as it is; so
  does an error of the call. A reply with an empty error text gives nil and empties the
  slot of the root page, and no other slot.
\<close>

theorem navigate_contract:
  "calls (snd (Navigate br p url s)) =
     calls s @ [PageStopLoading, PageNavigate (if url = [] then ''about:blank'' else url)]
   \<and> (br (calls s @ [PageStopLoading]) (PageNavigate (if url = [] then ''about:blank'' else url))
         = Inr res \<and> ErrorText res \<noteq> [] \<longrightarrow>
        fst (Navigate br p url s) = Some (NavigationError (ErrorText res)) \<and>
        jsCtx (snd (Navigate br p url s)) = jsCtx s)
   \<and> (br (calls s @ [PageStopLoading]) (PageNavigate (if url = [] then ''about:blank'' else url))
         = Inr res \<and> ErrorText res = [] \<longrightarrow>
        fst (Navigate br p url s) = None \<and>
        jsCtx (snd (Navigate br p url s)) = (jsCtx s)(root_jsCtxID p := []))
   \<and> (br (calls s @ [PageStopLoading]) (PageNavigate (if url = [] then ''about:blank'' else url))
         = Inl e \<longrightarrow>
        fst (Navigate br p url s) = Some e \<and> jsCtx (snd (Navigate br p url s)) = jsCtx s)"
  by (simp add: Navigate_eq Let_def split: sum.splits)

theorem navigate_contract_witness:
  "Navigate br_stop_fails page1 [] loaded_state =
     (None, loaded_state\<lparr>calls := [PageStopLoading, PageNavigate ''about:blank''],
        jsCtx := (\<lambda>a. ''ctx'')(0 := [])\<rparr>)
   \<and> fst (Navigate br_nav_error page1 ''http://x.invalid'' loaded_state) =
       Some (NavigationError ''net::ERR_NAME_NOT_RESOLVED'')
   \<and> jsCtx (snd (Navigate br_nav_error page1 ''http://x.invalid'' loaded_state)) 0 = ''ctx''
   \<and> fst (Navigate br_fail page1 [] loaded_state) = Some ErrCanceled"
  using navigate_contract [of br_stop_fails page1 "[]" loaded_state ok_result ErrCanceled]
    navigate_contract [of br_nav_error page1 "''http://x.invalid''" loaded_state
      "ok_result\<lparr>ErrorText := ''net::ERR_NAME_NOT_RESOLVED''\<rparr>" ErrCanceled]
    navigate_contract [of br_fail page1 "[]" loaded_state ok_result ErrCanceled]
  by (simp add: br_stop_fails_def br_nav_error_def br_fail_def page1_def loaded_state_def
      init_state_def ok_result_def Navigate_eq)

section \<open>Page.Close: the two outcomes\<close>

lemma close_loop_denied:
  "\<forall>x\<in>set pre. \<not> is_destroyed p x \<Longrightarrow> is_denied p m \<Longrightarrow>
   close_loop p (pre @ m # post) success = False"
proof (induction pre arbitrary: success)
  case Nil
  then show ?case
    by (simp add: is_denied_def Load_TargetTargetDestroyed_def Load_PageJavascriptDialogClosed_def)
next
  case (Cons x pre)
  then have nd: "\<not> is_destroyed p x" and ih: "\<And>b. close_loop p (pre @ m # post) b = False"
    by simp_all
  show ?case
  proof (cases "Load_TargetTargetDestroyed x")
    case (Some d)
    with nd have "d \<noteq> TargetID p"
      by (auto simp: is_destroyed_def Load_TargetTargetDestroyed_def split: event.splits)
    with Some ih show ?thesis by simp
  next
    case None
    then show ?thesis using ih by (simp split: option.splits)
  qed
qed

lemma close_loop_destroyed:
  "\<forall>x\<in>set pre. \<not> is_denied p x \<Longrightarrow> is_destroyed p m \<Longrightarrow>
   close_loop p (pre @ m # post) True = True"
proof (induction pre)
  case Nil
  then show ?case by (simp add: is_destroyed_def Load_TargetTargetDestroyed_def)
next
  case (Cons x pre)
  then have nd: "\<not> is_denied p x" and ih: "close_loop p (pre @ m # post) True = True"
    by simp_all
  show ?case
  proof (cases "Load_TargetTargetDestroyed x")
    case (Some d)
    with ih show ?thesis by simp
  next
    case None
    show ?thesis
    proof (cases "msgSessionID x = SessionID p")
      case True
      show ?thesis
      proof (cases "Load_PageJavascriptDialogClosed x")
        case (Some closed)
        with nd True have "closed"
          by (auto simp: is_denied_def Load_PageJavascriptDialogClosed_def split: event.splits)
        with None True Some ih show ?thesis by simp
      next
        case N2: None
        with None True ih show ?thesis by simp
      qed
    next
      case False
      with None ih show ?thesis by simp
    qed
  qed
qed

text \<open>
  C2. Let the first loop of \<^verbatim>\<open>Close\<close> end with a \<^verbatim>\<open>Page.close\<close> that succeeded,
  in state \<open>s'\<close>. If the stream delivers a \<^verbatim>\<open>PageJavascriptDialogClosed\<close> with
  result false on the page's session (\<open>m\<close>) and no \<^verbatim>\<open>TargetDestroyed\<close> for the
  page's target before it, \<^verbatim>\<open>Close\<close> returns \<^verbatim>\<open>PageCloseCanceledError\<close> in the
  state \<open>s'\<close>: the cleanup has not run. If it delivers a \<^verbatim>\<open>TargetDestroyed\<close> for
  the page's target and no such denial before it, \<^verbatim>\<open>Close\<close> returns nil after
  \<^verbatim>\<open>cleanupStates\<close>. What follows \<open>m\<close> in the stream is not read.
\<close>

theorem close_outcome:
  "close_call br s = Some (None, s') \<longrightarrow>
     ((\<forall>x\<in>set pre. \<not> is_destroyed p x) \<and> is_denied p m \<longrightarrow>
        Close br p (pre @ m # post) s = Some (Some PageCloseCanceledError, s'))
     \<and> ((\<forall>x\<in>set pre. \<not> is_denied p x) \<and> is_destroyed p m \<longrightarrow>
        Close br p (pre @ m # post) s = Some (None, cleanupStates s'))"
  by (simp add: Close_def close_loop_denied close_loop_destroyed)

lemma close_call_ok: "close_call br_ok s = Some (None, s\<lparr>calls := calls s @ [PageClose]\<rparr>)"
  by (subst close_call.simps) (simp add: Call_def br_ok_def)

lemma close_call_retry:
  "close_call br_retry init_state = Some (None, init_state\<lparr>calls := [PageClose, PageClose]\<rparr>)"
  apply (subst close_call.simps)
  apply (simp add: Call_def br_retry_def init_state_def)
  apply (subst close_call.simps)
  apply (simp add: Call_def br_retry_def init_state_def)
  done

theorem close_outcome_witness:
  "close_call br_retry init_state = Some (None, init_state\<lparr>calls := [PageClose, PageClose]\<rparr>)
   \<and> Close br_retry page1
        [Message ''S1'' (PageJavascriptDialogClosed True), Message [] (TargetTargetDestroyed ''T2''),
         Message ''S1'' (PageJavascriptDialogClosed False), Message [] (TargetTargetDestroyed ''T1'')]
        init_state
       = Some (Some PageCloseCanceledError, init_state\<lparr>calls := [PageClose, PageClose]\<rparr>)
   \<and> \<not> cleaned (init_state\<lparr>calls := [PageClose, PageClose]\<rparr>)
   \<and> Close br_retry page1
        [Message ''S2'' (PageJavascriptDialogClosed False), Message [] (TargetTargetDestroyed ''T1''),
         Message ''S1'' (PageJavascriptDialogClosed False)]
        init_state
       = Some (None, init_state\<lparr>calls := [PageClose, PageClose], cleaned := True\<rparr>)"
  using close_call_retry
    close_outcome [of br_retry init_state "init_state\<lparr>calls := [PageClose, PageClose]\<rparr>"
      "[Message ''S1'' (PageJavascriptDialogClosed True), Message [] (TargetTargetDestroyed ''T2'')]"
      page1 "Message ''S1'' (PageJavascriptDialogClosed False)"
      "[Message [] (TargetTargetDestroyed ''T1'')]"]
    close_outcome [of br_retry init_state "init_state\<lparr>calls := [PageClose, PageClose]\<rparr>"
      "[Message ''S2'' (PageJavascriptDialogClosed False)]"
      page1 "Message [] (TargetTargetDestroyed ''T1'')"
      "[Message ''S1'' (PageJavascriptDialogClosed False)]"]
  by (simp add: is_destroyed_def is_denied_def page1_def cleanupStates_def init_state_def)

section \<open>Page.initEvents: the end of a page\<close>

lemma initEvents_loop_never_on_destroyed:
  "TargetID p \<noteq> [] \<Longrightarrow>
   \<forall>x\<in>set msgs. msgEvent x \<noteq> TargetDetachedFromTarget (SessionID p) \<Longrightarrow>
   cancelled (initEvents_loop load_value p msgs d) = cancelled d"
proof (induction msgs arbitrary: d)
  case Nil
  show ?case by simp
next
  case (Cons x msgs)
  from Cons.prems(2) have nx: "msgEvent x \<noteq> TargetDetachedFromTarget (SessionID p)" by simp
  then have l: "(case Load_TargetDetachedFromTarget x of
                  Some detached \<Rightarrow> detached = SessionID p | None \<Rightarrow> False) = False"
    by (auto simp: Load_TargetDetachedFromTarget_def split: event.splits)
  from Cons.prems(1) have t: "([] = TargetID p) = False" by auto
  from Cons.prems(2) have r: "\<forall>x\<in>set msgs. msgEvent x \<noteq> TargetDetachedFromTarget (SessionID p)"
    by simp
  note ih = Cons.IH [OF Cons.prems(1) r]
  show ?case
    by (simp only: initEvents_loop.simps l t simp_thms if_False) (simp add: ih)
qed

lemma initEvents_destroyed_never_cancels:
  "TargetID p \<noteq> [] \<Longrightarrow>
   \<forall>x\<in>set msgs. msgEvent x \<noteq> TargetDetachedFromTarget (SessionID p) \<Longrightarrow>
   \<not> cancelled (initEvents load_value p msgs)"
  by (simp add: initEvents_def initEvents_loop_never_on_destroyed)

text \<open>The sibling branch, which passes a pointer, does cancel the scope.\<close>

lemma initEvents_detached_cancels:
  "cancelled (initEvents load_value p (Message sid (TargetDetachedFromTarget (SessionID p)) # rest))"
  by (simp add: initEvents_def Load_TargetDetachedFromTarget_def)

text \<open>
  C1 fails on the code for \<^verbatim>\<open>TargetDestroyed\<close>. The page has target \<open>T1\<close> and
  session \<open>S1\<close>; the browser sends \<^verbatim>\<open>TargetDestroyed\<close> for \<open>T1\<close>. Whatever
  \<^verbatim>\<open>msg.Load(destroyed)\<close> returns, the dispatcher compares the empty string with
  \<open>T1\<close>, does not call \<^verbatim>\<open>sessionCancel\<close>, and drops the event, which is not on
  the page's session. \<open>initEvents_destroyed_never_cancels\<close> above says the same of every
  stream without a \<^verbatim>\<open>DetachedFromTarget\<close> for the session.
\<close>

theorem init_events_destroyed_not_cancelled:
  "initEvents load_value page1 [Message [] (TargetTargetDestroyed ''T1'')] =
     \<lparr>cancelled = False, published = []\<rparr>"
  by (simp add: initEvents_def page1_def Load_TargetDetachedFromTarget_def)

section \<open>Page.WaitRequestIdle: counting requests\<close>

lemma checkDone_inv: "idle_inv w \<Longrightarrow> idle_inv (checkDone i w)"
proof (cases "waitList w i")
  case None
  assume "idle_inv w"
  with None show ?thesis by (simp add: checkDone_def)
next
  case (Some u)
  assume a: "idle_inv w"
  from Some have i: "i \<in> dom (waitList w)" by auto
  from a have f: "finite (dom (waitList w))" by (simp add: idle_inv_def)
  from i f have p: "0 < card (dom (waitList w))" by (auto simp: card_gt_0_iff)
  from i f have c: "card (dom (waitList w) - {i}) = card (dom (waitList w)) - 1" by simp
  from a have e: "adds w = dones w + card (dom (waitList w))" by (simp add: idle_inv_def)
  have "adds w = dones w + 1 + card (dom (waitList w) - {i})"
    using p c e by linarith
  with f Some show ?thesis by (simp add: checkDone_def idle_inv_def del: card_Diff_singleton)
qed

lemma idle_handler_inv: "idle_inv w \<Longrightarrow> idle_inv (idle_handler match ex e w)"
proof (cases e)
  case (NetworkRequestWillBeSent i ty url)
  assume a: "idle_inv w"
  show ?thesis
  proof (cases "waitList w i")
    case None
    then have "i \<notin> dom (waitList w)" by auto
    with a None NetworkRequestWillBeSent show ?thesis by (simp add: idle_inv_def)
  next
    case (Some u)
    with a NetworkRequestWillBeSent show ?thesis by simp
  qed
qed (simp_all add: checkDone_inv)

lemma idle_run_inv: "idle_inv w \<Longrightarrow> idle_inv (idle_run match ex es w)"
  unfolding idle_run_def by (induction es arbitrary: w) (simp_all add: idle_handler_inv)

text \<open>
  C3. In the handler of \<^verbatim>\<open>WaitRequestIdle\<close>, a \<^verbatim>\<open>NetworkRequestWillBeSent\<close>
  whose type is not excluded and whose URL matches adds its id and calls \<^verbatim>\<open>Add\<close>
  once when the id is not tracked; when the id is tracked (a redirect), or the type is
  excluded, or the URL does not match, the state stays as it is. A
  \<^verbatim>\<open>NetworkLoadingFinished\<close> or \<^verbatim>\<open>NetworkLoadingFailed\<close> for a tracked id removes
  it and calls \<^verbatim>\<open>Done\<close> once; for an id that is not tracked it does nothing. Over
  every run of events, the number of \<^verbatim>\<open>Add\<close> calls is the number of \<^verbatim>\<open>Done\<close> calls
  plus the number of tracked ids, so every request is counted once.
\<close>

theorem request_idle_handler:
  "(ty \<notin> set ex \<and> match url \<and> waitList w i = None \<longrightarrow>
      idle_handler match ex (NetworkRequestWillBeSent i ty url) w =
        w\<lparr>waitList := (waitList w)(i \<mapsto> url), adds := adds w + 1\<rparr>)
   \<and> (waitList w i \<noteq> None \<or> ty \<in> set ex \<or> \<not> match url \<longrightarrow>
      idle_handler match ex (NetworkRequestWillBeSent i ty url) w = w)
   \<and> (waitList w i \<noteq> None \<longrightarrow>
      idle_handler match ex (NetworkLoadingFinished i) w =
        w\<lparr>waitList := (waitList w)(i := None), dones := dones w + 1\<rparr> \<and>
      idle_handler match ex (NetworkLoadingFailed i) w =
        w\<lparr>waitList := (waitList w)(i := None), dones := dones w + 1\<rparr>)
   \<and> (waitList w i = None \<longrightarrow>
      idle_handler match ex (NetworkLoadingFinished i) w = w \<and>
      idle_handler match ex (NetworkLoadingFailed i) w = w)
   \<and> (finite (dom (waitList w)) \<and> adds w = dones w + card (dom (waitList w)) \<longrightarrow>
      finite (dom (waitList (idle_run match ex es w))) \<and>
      adds (idle_run match ex es w) =
        dones (idle_run match ex es w) + card (dom (waitList (idle_run match ex es w))))"
proof (intro conjI impI)
  assume "ty \<notin> set ex \<and> match url \<and> waitList w i = None"
  then show "idle_handler match ex (NetworkRequestWillBeSent i ty url) w =
        w\<lparr>waitList := (waitList w)(i \<mapsto> url), adds := adds w + 1\<rparr>"
    by simp
next
  assume "waitList w i \<noteq> None \<or> ty \<in> set ex \<or> \<not> match url"
  then show "idle_handler match ex (NetworkRequestWillBeSent i ty url) w = w"
    by auto
next
  assume a: "waitList w i \<noteq> None"
  then show "idle_handler match ex (NetworkLoadingFinished i) w =
        w\<lparr>waitList := (waitList w)(i := None), dones := dones w + 1\<rparr>"
    by (simp add: checkDone_def)
  from a show "idle_handler match ex (NetworkLoadingFailed i) w =
        w\<lparr>waitList := (waitList w)(i := None), dones := dones w + 1\<rparr>"
    by (simp add: checkDone_def)
next
  assume a: "waitList w i = None"
  then show "idle_handler match ex (NetworkLoadingFinished i) w = w"
    by (simp add: checkDone_def)
  from a show "idle_handler match ex (NetworkLoadingFailed i) w = w"
    by (simp add: checkDone_def)
next
  assume "finite (dom (waitList w)) \<and> adds w = dones w + card (dom (waitList w))"
  then have "idle_inv (idle_run match ex es w)"
    by (intro idle_run_inv) (simp add: idle_inv_def)
  then show "finite (dom (waitList (idle_run match ex es w)))"
    and "adds (idle_run match ex es w) =
        dones (idle_run match ex es w) + card (dom (waitList (idle_run match ex es w)))"
    by (simp_all add: idle_inv_def)
qed

theorem request_idle_handler_witness:
  "idle_run (\<lambda>u. True) (excludeTypes_of None)
     [NetworkRequestWillBeSent ''1'' ''Document'' ''/a'',
      NetworkRequestWillBeSent ''1'' ''Document'' ''/b'',
      NetworkLoadingFinished ''1'', NetworkLoadingFailed ''1''] idle_init =
     \<lparr>waitList = Map.empty, adds = 1, dones = 1\<rparr>
   \<and> idle_handler (\<lambda>u. True) (excludeTypes_of None)
       (NetworkRequestWillBeSent ''1'' ''Document'' ''/a'') idle_init =
       \<lparr>waitList = [''1'' \<mapsto> ''/a''], adds = 1, dones = 0\<rparr>
   \<and> idle_handler (\<lambda>u. True) (excludeTypes_of None)
       (NetworkRequestWillBeSent ''1'' ''Document'' ''/b'')
       \<lparr>waitList = [''1'' \<mapsto> ''/a''], adds = 1, dones = 0\<rparr> =
       \<lparr>waitList = [''1'' \<mapsto> ''/a''], adds = 1, dones = 0\<rparr>
   \<and> idle_handler (\<lambda>u. True) (excludeTypes_of None) (NetworkLoadingFinished ''1'')
       \<lparr>waitList = [''1'' \<mapsto> ''/a''], adds = 1, dones = 0\<rparr> =
       \<lparr>waitList = Map.empty, adds = 1, dones = 1\<rparr>
   \<and> idle_handler (\<lambda>u. True) (excludeTypes_of None)
       (NetworkRequestWillBeSent ''2'' ''Image'' ''/i.png'') idle_init = idle_init"
  using
    request_idle_handler [of "''Document''" "excludeTypes_of None" "\<lambda>u. True" "''/a''" idle_init
      "''1''" "[]"]
    request_idle_handler [of "''Document''" "excludeTypes_of None" "\<lambda>u. True" "''/b''"
      "\<lparr>waitList = [''1'' \<mapsto> ''/a''], adds = 1, dones = 0\<rparr>" "''1''" "[]"]
    request_idle_handler [of "''Image''" "excludeTypes_of None" "\<lambda>u. True" "''/i.png''" idle_init
      "''2''" "[]"]
  by (simp add: idle_run_def idle_init_def excludeTypes_of_def excludeTypes_default_def
      checkDone_def)

section \<open>Page.WaitStable: the error returned\<close>

text \<open>
  When \<^verbatim>\<open>WaitLoad\<close> is the first to finish, its result is what \<^verbatim>\<open>WaitStable\<close>
  returns, whatever the others return later.
\<close>

lemma WaitStable_load_first:
  "WaitStable (TaskWaitLoad # rest) (Some eLoad) True (Some eDOM) = Some eLoad"
proof -
  have "err (fold (task_end eLoad eDOM) rest c) = err c" if "fired c" for c
    using that
  proof (induction rest arbitrary: c)
    case Nil
    show ?case by simp
  next
    case (Cons t rest)
    then show ?case by (cases t) (simp_all add: setErr_Do_def)
  qed
  then show ?thesis by (simp add: WaitStable_def setErr_Do_def)
qed

lemma WaitStable_waits_for_all:
  "WaitStable finished rLoad rIdle rDOM \<noteq> None \<longleftrightarrow> rLoad \<noteq> None \<and> rIdle \<and> rDOM \<noteq> None"
  by (auto simp: WaitStable_def split: option.splits bool.splits)

text \<open>
  C7 fails on the code. \<^verbatim>\<open>WaitLoad\<close> finishes first and returns nil, the wait of
  \<^verbatim>\<open>WaitRequestIdle\<close> returns, and \<^verbatim>\<open>WaitDOMStable\<close> finishes last with the
  error of a cancelled scope. \<^verbatim>\<open>setErr.Do\<close> has run for the nil of \<^verbatim>\<open>WaitLoad\<close>
  and does not run again: \<^verbatim>\<open>WaitStable\<close> returns nil although one of the three
  failed.
\<close>

theorem wait_stable_drops_error:
  "WaitStable [TaskWaitLoad, TaskWaitRequestIdle, TaskWaitDOMStable]
     (Some None) True (Some (Some ErrCanceled)) = Some None"
  by (simp add: WaitStable_def setErr_Do_def)

section \<open>Page.Screenshot: the viewport is recovered\<close>

lemma calls_capture: "calls (snd (capture br r s)) = calls s @ [PageCaptureScreenshot r]"
  by (simp add: capture_def Call_def split: sum.splits)

lemma fst_capture:
  "fst (capture br r s) =
     (case br (calls s) (PageCaptureScreenshot r) of Inl e \<Rightarrow> Inl e | Inr shot \<Rightarrow> Inr (Data shot))"
  by (simp add: capture_def Call_def split: sum.splits)

lemma calls_recover:
  "calls (recover_viewport br isSet oldView s) =
     calls s @ [if isSet then EmulationSetDeviceMetrics oldView
                else EmulationClearDeviceMetricsOverride]"
  by (simp add: recover_viewport_def SetViewport_def Call_def)

lemma Screenshot_full_applied:
  assumes "override_applied br stored s"
  shows "\<exists>view. calls (snd (Screenshot br stored True req s)) =
           calls s @ [PageGetLayoutMetrics, EmulationSetDeviceMetrics view,
             PageCaptureScreenshot (case req of None \<Rightarrow> [] | Some r \<Rightarrow> r),
             (case stored of None \<Rightarrow> EmulationClearDeviceMetricsOverride
              | Some v \<Rightarrow> EmulationSetDeviceMetrics v)]"
proof -
  obtain metrics where m: "br (calls s) PageGetLayoutMetrics = Inr metrics"
    using assms by (cases "br (calls s) PageGetLayoutMetrics")
      (simp_all add: override_applied_def Call_def)
  obtain w h where c: "CSSContentSize metrics = Some (w, h)"
    using assms m by (cases "CSSContentSize metrics") (auto simp: override_applied_def Call_def)
  let ?old = "case stored of None \<Rightarrow> zero_view | Some v \<Rightarrow> v"
  let ?view = "?old\<lparr>Width := w, Height := h\<rparr>"
  let ?s1 = "s\<lparr>calls := calls s @ [PageGetLayoutMetrics]\<rparr>"
  have ok: "fst (SetViewport br (Some ?view) ?s1) = None"
    using assms m c by (simp add: override_applied_def Call_def)
  obtain s2 where s2: "SetViewport br (Some ?view) ?s1 = (None, s2)"
    using ok by (cases "SetViewport br (Some ?view) ?s1") simp
  then have cs2: "calls s2 = calls s @ [PageGetLayoutMetrics, EmulationSetDeviceMetrics ?view]"
    by (auto simp: SetViewport_def Call_def)
  have "calls (snd (Screenshot br stored True req s)) =
          calls s2 @ [PageCaptureScreenshot (case req of None \<Rightarrow> [] | Some r \<Rightarrow> r),
            (if stored \<noteq> None then EmulationSetDeviceMetrics ?old
             else EmulationClearDeviceMetricsOverride)]"
    using m c s2
    by (simp add: Screenshot_def Call_def Let_def calls_recover calls_capture case_prod_unfold)
  then show ?thesis using cs2 by (cases stored) auto
qed

text \<open>
  C8. Once \<^verbatim>\<open>Screenshot(true, req)\<close> has applied its temporary override, it sends
  the capture and then, as its last call before returning, either
  \<^verbatim>\<open>EmulationClearDeviceMetricsOverride\<close> when no override was set before, or the
  override that was set before. That holds for every browser, so whether the capture
  succeeds or fails; the instance below has one run of each kind.
\<close>

theorem screenshot_recovers_viewport:
  "override_applied br stored s \<longrightarrow>
     (\<exists>view. calls (snd (Screenshot br stored True req s)) =
        calls s @ [PageGetLayoutMetrics, EmulationSetDeviceMetrics view,
          PageCaptureScreenshot (case req of None \<Rightarrow> [] | Some r \<Rightarrow> r),
          (case stored of None \<Rightarrow> EmulationClearDeviceMetricsOverride
           | Some v \<Rightarrow> EmulationSetDeviceMetrics v)])"
  using Screenshot_full_applied by blast

lemma shot1:
  "Screenshot br_capture_fails None True None init_state =
     (Inl ErrCanceled, init_state\<lparr>calls :=
        [PageGetLayoutMetrics,
         EmulationSetDeviceMetrics \<lparr>Width = 800, Height = 3000, DeviceScaleFactor = 0, Mobile = False\<rparr>,
         PageCaptureScreenshot [], EmulationClearDeviceMetricsOverride]\<rparr>)"
  by (simp add: Screenshot_def Call_def Let_def capture_def SetViewport_def recover_viewport_def
      br_capture_fails_def init_state_def ok_result_def zero_view_def err_of_def)

lemma shot2:
  "Screenshot br_page (Some phone_view) True (Some ''jpeg'') init_state =
     (Inr ''png'', init_state\<lparr>calls :=
        [PageGetLayoutMetrics,
         EmulationSetDeviceMetrics \<lparr>Width = 800, Height = 3000, DeviceScaleFactor = 2, Mobile = True\<rparr>,
         PageCaptureScreenshot ''jpeg'', EmulationSetDeviceMetrics phone_view]\<rparr>)"
  by (simp add: Screenshot_def Call_def Let_def capture_def SetViewport_def recover_viewport_def
      br_page_def init_state_def ok_result_def phone_view_def err_of_def)

theorem screenshot_recovers_viewport_witness:
  "override_applied br_capture_fails None init_state
   \<and> override_applied br_page (Some phone_view) init_state
   \<and> Screenshot br_capture_fails None True None init_state =
     (Inl ErrCanceled, init_state\<lparr>calls :=
        [PageGetLayoutMetrics,
         EmulationSetDeviceMetrics \<lparr>Width = 800, Height = 3000, DeviceScaleFactor = 0, Mobile = False\<rparr>,
         PageCaptureScreenshot [], EmulationClearDeviceMetricsOverride]\<rparr>)
   \<and> Screenshot br_page (Some phone_view) True (Some ''jpeg'') init_state =
     (Inr ''png'', init_state\<lparr>calls :=
        [PageGetLayoutMetrics,
         EmulationSetDeviceMetrics \<lparr>Width = 800, Height = 3000, DeviceScaleFactor = 2, Mobile = True\<rparr>,
         PageCaptureScreenshot ''jpeg'', EmulationSetDeviceMetrics phone_view]\<rparr>)"
proof -
  have a: "override_applied br_capture_fails None init_state"
    by (simp add: override_applied_def Call_def SetViewport_def br_capture_fails_def
        ok_result_def err_of_def)
  have b: "override_applied br_page (Some phone_view) init_state"
    by (simp add: override_applied_def Call_def SetViewport_def br_page_def
        ok_result_def err_of_def)
  show ?thesis
    using a b shot1 shot2
      screenshot_recovers_viewport [of br_capture_fails None init_state None]
      screenshot_recovers_viewport [of br_page "Some phone_view" init_state "Some ''jpeg''"]
    by simp
qed

section \<open>Keyboard: the modifier mask on release\<close>

lemma bit_modifiers_fold:
  "bit (fold (\<lambda>k ms. ms OR M k) ks acc) n \<longleftrightarrow> bit acc n \<or> (\<exists>k\<in>set ks. bit (M k) n)"
  by (induction ks arbitrary: acc) (auto simp: bit_or_iff)

lemma bit_modifiers_of: "bit (modifiers_of M ks) n \<longleftrightarrow> (\<exists>k\<in>set ks. bit (M k) n)"
  by (simp add: modifiers_of_def bit_modifiers_fold)

lemma modifiers_of_set: "set xs = set ys \<Longrightarrow> modifiers_of M xs = modifiers_of M ys"
  by (rule bit_eqI) (simp add: bit_modifiers_of)

lemma modifiers_any_order:
  "finite (pressed k) \<Longrightarrow> set xs = pressed k \<Longrightarrow> modifiers_of M xs = modifiers M k"
  unfolding modifiers_def by (rule modifiers_of_set) simp

lemma bit_modifiers:
  "finite (pressed k) \<Longrightarrow> bit (modifiers M k) n \<longleftrightarrow> (\<exists>x\<in>pressed k. bit (M x) n)"
  by (simp add: modifiers_def bit_modifiers_of)

lemma Keyboard_Release_undefined:
  "Info key = None \<Longrightarrow> Keyboard_Release Info M br key k = (Panic, k)"
  by (simp add: Keyboard_Release_def)

lemma Keyboard_Press_undefined:
  "Info key = None \<Longrightarrow> Keyboard_Press Info M br key k = (Panic, k)"
  by (simp add: Keyboard_Press_def)

lemma Keyboard_Release_not_pressed:
  "Info key = Some c \<Longrightarrow> key \<notin> pressed k \<Longrightarrow> Keyboard_Release Info M br key k = (Return None, k)"
  by (simp add: Keyboard_Release_def)

lemma Keyboard_Release_pressed:
  "Info key = Some c \<Longrightarrow> key \<in> pressed k \<Longrightarrow>
   Keyboard_Release Info M br key k =
     (Return (err_of (br (calls k) (InputDispatchKeyEvent KeyUp key
        (modifiers M (k\<lparr>pressed := pressed k - {key}\<rparr>))))),
      k\<lparr>pressed := pressed k - {key},
        calls := calls k @ [InputDispatchKeyEvent KeyUp key
          (modifiers M (k\<lparr>pressed := pressed k - {key}\<rparr>))]\<rparr>)"
  by (simp add: Keyboard_Release_def Call_def Let_def)

lemma Keyboard_Press_defined:
  "Info key = Some c \<Longrightarrow>
   Keyboard_Press Info M br key k =
     (Return (err_of (br (calls k) (InputDispatchKeyEvent KeyDown key
        (modifiers M (k\<lparr>pressed := insert key (pressed k)\<rparr>))))),
      k\<lparr>pressed := insert key (pressed k),
        calls := calls k @ [InputDispatchKeyEvent KeyDown key
          (modifiers M (k\<lparr>pressed := insert key (pressed k)\<rparr>))]\<rparr>)"
  by (simp add: Keyboard_Press_def Call_def Let_def)

lemma modifiers_empty: "pressed k = {} \<Longrightarrow> modifiers M k = 0"
  by (simp add: modifiers_def modifiers_of_def)

lemma modifiers_single: "pressed k = {x} \<Longrightarrow> modifiers M k = M x"
  by (simp add: modifiers_def modifiers_of_def)

lemma modifiers_pair: "pressed k = {x, y} \<Longrightarrow> modifiers M k = M x OR M y"
  using modifiers_any_order [of k "[x, y]" M] by (simp add: modifiers_of_def)

lemma shift_scenario:
  assumes "shift \<noteq> a" "M a = 0" "pressed k = {}" "Info shift = Some cs" "Info a = Some ca"
  shows "calls (keyboard_run Info M br [Press shift, Press a, Release shift, Release a] k) =
         calls k @ [InputDispatchKeyEvent KeyDown shift (M shift),
                    InputDispatchKeyEvent KeyDown a (M shift),
                    InputDispatchKeyEvent KeyUp shift 0,
                    InputDispatchKeyEvent KeyUp a 0]"
proof -
  have d: "{a, shift} - {shift} = {a}" using assms(1) by auto
  show ?thesis
    using assms
    by (simp add: Keyboard_Press_defined [of Info _ _] Keyboard_Release_pressed [of Info _ _] d
        modifiers_empty modifiers_single modifiers_pair [of _ a shift])
qed

text \<open>
  C5, as the claim states it for every key, fails: \<^verbatim>\<open>Release\<close> evaluates
  \<^verbatim>\<open>key.Info()\<close> first, and for a key outside the key map that panics. Key 17 is
  not in the map (ControlLeft is 529) and is not pressed; \<^verbatim>\<open>Release(17)\<close> does not
  return nil, it panics and leaves the state as it is.
\<close>

theorem keyboard_release_undefined_key:
  "17 \<notin> pressed init_state
   \<and> Keyboard_Release test_Info test_mod br_ok 17 init_state = (Panic, init_state)"
  by (simp add: Keyboard_Release_def test_Info_def init_state_def)

text \<open>
  C5, amended. For every key of the key map, \<^verbatim>\<open>Keyboard.Release(key)\<close> on a key that
  is not pressed returns nil and leaves the state as it is, so it sends nothing. On a
  pressed key it removes the key and sends one \<^verbatim>\<open>keyUp\<close> whose modifier mask is
  computed from the set after the removal: bit \<open>n\<close> of the mask is set exactly when
  another key still pressed has it in its \<^verbatim>\<open>Modifier()\<close>. In the run press Shift,
  press A, release Shift, release A from an empty set, with both keys in the key map and A
  no modifier key, both \<^verbatim>\<open>keyUp\<close> events carry modifiers 0, whatever the browser
  answers. For a key outside the key map, \<^verbatim>\<open>Release\<close> panics and changes nothing.
\<close>

theorem keyboard_release_defined_key:
  "(Info key \<noteq> None \<and> key \<notin> pressed k \<longrightarrow>
      Keyboard_Release Info M br key k = (Return None, k))
   \<and> (Info key \<noteq> None \<and> key \<in> pressed k \<longrightarrow>
        Keyboard_Release Info M br key k =
          (Return (err_of (br (calls k) (InputDispatchKeyEvent KeyUp key
             (modifiers M (k\<lparr>pressed := pressed k - {key}\<rparr>))))),
           k\<lparr>pressed := pressed k - {key},
             calls := calls k @ [InputDispatchKeyEvent KeyUp key
               (modifiers M (k\<lparr>pressed := pressed k - {key}\<rparr>))]\<rparr>))
   \<and> (finite (pressed k) \<longrightarrow>
        bit (modifiers M (k\<lparr>pressed := pressed k - {key}\<rparr>)) n =
          (\<exists>x. x \<in> pressed k \<and> x \<noteq> key \<and> bit (M x) n))
   \<and> (shift \<noteq> a \<and> M a = 0 \<and> pressed k = {} \<and> Info shift \<noteq> None \<and> Info a \<noteq> None \<longrightarrow>
        calls (keyboard_run Info M br [Press shift, Press a, Release shift, Release a] k) =
          calls k @ [InputDispatchKeyEvent KeyDown shift (M shift),
                     InputDispatchKeyEvent KeyDown a (M shift),
                     InputDispatchKeyEvent KeyUp shift 0,
                     InputDispatchKeyEvent KeyUp a 0])
   \<and> (Info key = None \<longrightarrow> Keyboard_Release Info M br key k = (Panic, k))"
proof (intro conjI impI)
  show "Info key \<noteq> None \<and> key \<notin> pressed k \<Longrightarrow>
        Keyboard_Release Info M br key k = (Return None, k)"
    using Keyboard_Release_not_pressed [of Info key _ k M br] by auto
  show "Info key \<noteq> None \<and> key \<in> pressed k \<Longrightarrow>
        Keyboard_Release Info M br key k =
          (Return (err_of (br (calls k) (InputDispatchKeyEvent KeyUp key
             (modifiers M (k\<lparr>pressed := pressed k - {key}\<rparr>))))),
           k\<lparr>pressed := pressed k - {key},
             calls := calls k @ [InputDispatchKeyEvent KeyUp key
               (modifiers M (k\<lparr>pressed := pressed k - {key}\<rparr>))]\<rparr>)"
    using Keyboard_Release_pressed [of Info key _ k M br] by auto
  show "finite (pressed k) \<Longrightarrow>
        bit (modifiers M (k\<lparr>pressed := pressed k - {key}\<rparr>)) n =
          (\<exists>x. x \<in> pressed k \<and> x \<noteq> key \<and> bit (M x) n)"
    by (auto simp: bit_modifiers)
  show "shift \<noteq> a \<and> M a = 0 \<and> pressed k = {} \<and> Info shift \<noteq> None \<and> Info a \<noteq> None \<Longrightarrow>
        calls (keyboard_run Info M br [Press shift, Press a, Release shift, Release a] k) =
          calls k @ [InputDispatchKeyEvent KeyDown shift (M shift),
                     InputDispatchKeyEvent KeyDown a (M shift),
                     InputDispatchKeyEvent KeyUp shift 0,
                     InputDispatchKeyEvent KeyUp a 0]"
    using shift_scenario [of shift a M k Info _ _ br] by auto
  show "Info key = None \<Longrightarrow> Keyboard_Release Info M br key k = (Panic, k)"
    by (rule Keyboard_Release_undefined)
qed

text \<open>
  The theorem at \<^verbatim>\<open>KeyA\<close> (97) and \<^verbatim>\<open>ShiftLeft\<close> (528), and at key 16, which
  the key map does not hold.
\<close>

theorem keyboard_release_defined_key_witness:
  "Keyboard_Release test_Info test_mod br_ok 97 init_state = (Return None, init_state)
   \<and> Keyboard_Release test_Info test_mod br_ok 528 (init_state\<lparr>pressed := {528, 97}\<rparr>) =
       (Return None, init_state\<lparr>pressed := {97}, calls := [InputDispatchKeyEvent KeyUp 528 0]\<rparr>)
   \<and> calls (keyboard_run test_Info test_mod br_ok
        [Press 528, Press 97, Release 528, Release 97] init_state) =
       [InputDispatchKeyEvent KeyDown 528 8, InputDispatchKeyEvent KeyDown 97 8,
        InputDispatchKeyEvent KeyUp 528 0, InputDispatchKeyEvent KeyUp 97 0]
   \<and> Keyboard_Release test_Info test_mod br_ok 16 (init_state\<lparr>pressed := {528, 97}\<rparr>) =
       (Panic, init_state\<lparr>pressed := {528, 97}\<rparr>)"
  using keyboard_release_defined_key [of test_Info 97 init_state test_mod br_ok 0 528 97]
    keyboard_release_defined_key [of test_Info 528 "init_state\<lparr>pressed := {528, 97}\<rparr>" test_mod
      br_ok 0 528 97]
    keyboard_release_defined_key [of test_Info 16 "init_state\<lparr>pressed := {528, 97}\<rparr>" test_mod
      br_ok 0 528 97]
  by (simp add: init_state_def test_Info_def test_mod_def br_ok_def err_of_def modifiers_single)

section \<open>KeyActions: balance and Do\<close>

lemma balance_h_step: "balance_h (a # as) h = balance_h as (h(Key a \<mapsto> (Type a = KeyActionPress)))"
  by (cases "Type a") simp_all

lemma balance_h_snoc:
  "balance_h (as @ [a]) h = (balance_h as h)(Key a \<mapsto> (Type a = KeyActionPress))"
proof (induction as arbitrary: h)
  case Nil
  show ?case by (simp only: append_Nil balance_h_step balance_h.simps(1))
next
  case (Cons x as)
  show ?case by (simp only: append_Cons balance_h_step Cons.IH)
qed

lemma last_action_Nil: "last_action [] k = None"
  by (simp add: last_action_def)

lemma last_action_filter:
  "last_action as k =
     (if filter (\<lambda>a. Key a = k) as = [] then None
      else Some (Type (last (filter (\<lambda>a. Key a = k) as))))"
  by (simp add: last_action_def split: list.splits)

lemma last_action_snoc:
  "last_action (as @ [a]) k = (if Key a = k then Some (Type a) else last_action as k)"
  by (simp add: last_action_filter)

lemma balance_h_last:
  "balance_h as h k =
     (case last_action as k of None \<Rightarrow> h k | Some t \<Rightarrow> Some (t = KeyActionPress))"
proof (induction as rule: rev_induct)
  case Nil
  show ?case by (simp add: last_action_Nil)
next
  case (snoc a as)
  show ?case by (simp add: balance_h_snoc last_action_snoc snoc.IH)
qed

lemma last_action_None: "last_action as k = None \<longleftrightarrow> k \<notin> Key ` set as"
  by (auto simp: last_action_filter filter_empty_conv)

lemma dom_balance_h: "dom (balance_h as Map.empty) = Key ` set as"
proof -
  have "balance_h as Map.empty k \<noteq> None \<longleftrightarrow> k \<in> Key ` set as" for k
    using last_action_None [of as k] by (cases "last_action as k") (simp_all add: balance_h_last)
  then show ?thesis by (auto simp: dom_def)
qed

lemma balance_append_eq:
  "balance_append h order actions =
     actions @ map (KeyAction KeyActionRelease) (filter (\<lambda>k. h k = Some True) order)"
  by (induction order arbitrary: actions) auto

lemma balance_eq:
  "balance order actions =
     actions @ map (KeyAction KeyActionRelease)
       (filter (\<lambda>k. last_action actions k = Some KeyActionPress) order)"
proof -
  have "(\<lambda>k. balance_h actions Map.empty k = Some True) =
        (\<lambda>k. last_action actions k = Some KeyActionPress)"
    by (auto simp: balance_h_last fun_eq_iff split: option.splits)
  then show ?thesis by (simp add: balance_def balance_append_eq)
qed

lemma balance_released_keys:
  assumes "range_order (balance_h actions Map.empty) order"
  shows "distinct (filter (\<lambda>k. last_action actions k = Some KeyActionPress) order)"
    and "set (filter (\<lambda>k. last_action actions k = Some KeyActionPress) order) =
           {k. last_action actions k = Some KeyActionPress}"
proof -
  from assms have d: "distinct order" and s: "set order = Key ` set actions"
    by (simp_all add: range_order_def dom_balance_h)
  show "distinct (filter (\<lambda>k. last_action actions k = Some KeyActionPress) order)"
    using d by simp
  have "last_action actions k = Some KeyActionPress \<Longrightarrow> k \<in> Key ` set actions" for k
    using last_action_None [of actions k] by auto
  then show "set (filter (\<lambda>k. last_action actions k = Some KeyActionPress) order) =
           {k. last_action actions k = Some KeyActionPress}"
    using s by auto
qed

lemma pressed_Press:
  "fst (Keyboard_Press Info M br key k) = Return e \<Longrightarrow>
   pressed (snd (Keyboard_Press Info M br key k)) = insert key (pressed k)"
  by (cases "Info key") (simp_all add: Keyboard_Press_def Call_def Let_def)

lemma pressed_Release:
  "fst (Keyboard_Release Info M br key k) = Return e \<Longrightarrow>
   pressed (snd (Keyboard_Release Info M br key k)) = pressed k - {key}"
  by (cases "Info key") (simp_all add: Keyboard_Release_def Call_def Let_def)

lemma pressed_Type1:
  assumes "fst (Keyboard_Type Info M br [key] k) = Return None"
  shows "pressed (snd (Keyboard_Type Info M br [key] k)) = pressed k - {key}"
proof -
  obtain r1 k1 where p: "Keyboard_Press Info M br key k = (r1, k1)"
    by (cases "Keyboard_Press Info M br key k")
  obtain r2 k2 where r: "Keyboard_Release Info M br key k1 = (r2, k2)"
    by (cases "Keyboard_Release Info M br key k1")
  from assms p have r1: "r1 = Return None"
    by (cases r1) (auto split: option.splits prod.splits result.splits)
  from assms p r r1 have r2: "r2 = Return None"
    by (cases r2) (auto split: option.splits)
  from p r1 have "pressed k1 = insert key (pressed k)"
    using pressed_Press [of Info M br key k None] by simp
  moreover from r r2 have "pressed k2 = pressed k1 - {key}"
    using pressed_Release [of Info M br key k1 None] by simp
  ultimately show ?thesis using p r r1 r2 by simp
qed

lemma Do_loop_pressed:
  "fst (Do_loop Info M br as k) = Return None \<Longrightarrow>
   pressed (snd (Do_loop Info M br as k)) = fold pressed_step as (pressed k)"
proof (induction as arbitrary: k)
  case Nil
  show ?case by simp
next
  case (Cons a as)
  let ?step = "case Type a of
              KeyActionPress \<Rightarrow> Keyboard_Press Info M br (Key a) k
            | KeyActionRelease \<Rightarrow> Keyboard_Release Info M br (Key a) k
            | KeyActionTypeKey \<Rightarrow> Keyboard_Type Info M br [Key a] k"
  obtain r k' where s: "?step = (r, k')" by (cases ?step)
  from Cons.prems s have r: "r = Return None"
    by (cases r) (auto simp del: Keyboard_Type.simps split: option.splits)
  from Cons.prems s r have rest: "fst (Do_loop Info M br as k') = Return None"
    by (simp del: Keyboard_Type.simps)
  have p: "pressed k' = pressed_step a (pressed k)"
  proof (cases "Type a")
    case KeyActionPress
    with s r show ?thesis
      using pressed_Press [of Info M br "Key a" k None] by (simp add: pressed_step_def)
  next
    case KeyActionRelease
    with s r show ?thesis
      using pressed_Release [of Info M br "Key a" k None] by (simp add: pressed_step_def)
  next
    case KeyActionTypeKey
    with s r show ?thesis
      using pressed_Type1 [of Info M br "Key a" k]
      by (simp add: pressed_step_def del: Keyboard_Type.simps)
  qed
  from Cons.IH [OF rest] s r p show ?case by (simp del: Keyboard_Type.simps)
qed

lemma fold_pressed_step:
  "k \<in> fold pressed_step as P \<longleftrightarrow>
     (case last_action as k of None \<Rightarrow> k \<in> P | Some t \<Rightarrow> t = KeyActionPress)"
proof (induction as rule: rev_induct)
  case Nil
  show ?case by (simp add: last_action_Nil)
next
  case (snoc a as)
  then show ?case by (auto simp: last_action_snoc pressed_step_def split: option.splits)
qed

lemma last_action_append_releases:
  "last_action (as @ map (KeyAction KeyActionRelease) ks) k =
     (if k \<in> set ks then Some KeyActionRelease else last_action as k)"
proof (induction ks rule: rev_induct)
  case Nil
  show ?case by simp
next
  case (snoc x ks)
  have "as @ map (KeyAction KeyActionRelease) (ks @ [x]) =
        (as @ map (KeyAction KeyActionRelease) ks) @ [KeyAction KeyActionRelease x]" by simp
  then show ?case using snoc by (simp only: last_action_snoc) auto
qed

lemma Do_pressed:
  assumes ro: "range_order (balance_h actions Map.empty) order"
    and ok: "fst (KeyActions_Do Info M br order actions k) = Return None"
  shows "pressed (snd (KeyActions_Do Info M br order actions k)) = pressed k - Key ` set actions"
proof -
  let ?ks = "filter (\<lambda>k. last_action actions k = Some KeyActionPress) order"
  have p: "pressed (snd (KeyActions_Do Info M br order actions k)) =
        fold pressed_step (actions @ map (KeyAction KeyActionRelease) ?ks) (pressed k)"
    using ok Do_loop_pressed [of Info M br "balance order actions" k]
    by (simp add: KeyActions_Do_def balance_eq)
  have s: "set ?ks = {k. last_action actions k = Some KeyActionPress}"
    using balance_released_keys(2) [OF ro] .
  have "x \<in> fold pressed_step (actions @ map (KeyAction KeyActionRelease) ?ks) (pressed k)
        \<longleftrightarrow> x \<in> pressed k - Key ` set actions" for x
  proof (cases "last_action actions x")
    case None
    then have "x \<notin> Key ` set actions" by (simp add: last_action_None)
    moreover from None s have "x \<notin> set ?ks" by auto
    ultimately show ?thesis using None
      by (simp add: fold_pressed_step last_action_append_releases del: fold_append)
  next
    case (Some t)
    then have i: "x \<in> Key ` set actions" using last_action_None [of actions x] by auto
    show ?thesis
    proof (cases "t = KeyActionPress")
      case True
      with Some s have "x \<in> set ?ks" by auto
      then show ?thesis using i by (simp add: fold_pressed_step last_action_append_releases del: fold_append)
    next
      case False
      with Some s have "x \<notin> set ?ks" by auto
      then show ?thesis using i Some False
        by (simp add: fold_pressed_step last_action_append_releases del: fold_append)
    qed
  qed
  with p show ?thesis by blast
qed


text \<open>
  C9, as the claim states it, fails in its last part: \<^verbatim>\<open>Do\<close> returns at the first
  error, and \<^verbatim>\<open>Press\<close> has put the key into the pressed-set before its call. With a
  browser that refuses the \<^verbatim>\<open>keyDown\<close>, \<^verbatim>\<open>Do\<close> on the single action
  press(ControlLeft), key 529 of the key map, returns the error and leaves the key pressed.
\<close>

theorem key_actions_press_fails:
  "range_order (balance_h [KeyAction KeyActionPress 529] Map.empty) [529]
   \<and> test_Info 529 = Some ''ControlLeft''
   \<and> fst (KeyActions_Do test_Info test_mod br_fail [529] [KeyAction KeyActionPress 529] init_state)
       = Return (Some ErrCanceled)
   \<and> 529 \<in> pressed (snd (KeyActions_Do test_Info test_mod br_fail [529]
        [KeyAction KeyActionPress 529] init_state))"
  by (simp add: range_order_def KeyActions_Do_def balance_def Keyboard_Press_def Call_def
      err_of_def br_fail_def init_state_def test_Info_def Let_def)

text \<open>
  C9, amended. For every action list and every order in which the runtime ranges over the
  map, \<^verbatim>\<open>balance\<close> returns the scheduled actions followed by one release for each key
  whose last action is a press: the appended keys are distinct and are exactly those keys.
  When \<^verbatim>\<open>Do\<close> returns nil, no key of the sequence is in the pressed-set: the set is the
  one before, without the keys of the actions. (\<^verbatim>\<open>Do\<close> returns nil only when no call
  failed and every key of the actions is in the key map.)
\<close>

theorem key_actions_balance:
  "range_order (balance_h actions Map.empty) order \<longrightarrow>
     balance order actions =
       actions @ map (KeyAction KeyActionRelease)
         (filter (\<lambda>k. last_action actions k = Some KeyActionPress) order)
     \<and> distinct (filter (\<lambda>k. last_action actions k = Some KeyActionPress) order)
     \<and> set (filter (\<lambda>k. last_action actions k = Some KeyActionPress) order) =
         {k. last_action actions k = Some KeyActionPress}
     \<and> (fst (KeyActions_Do Info M br order actions k) = Return None \<longrightarrow>
          pressed (snd (KeyActions_Do Info M br order actions k)) =
            pressed k - Key ` set actions)"
  using balance_eq balance_released_keys Do_pressed by blast

text \<open>
  The theorem at press(ControlLeft), press(ShiftLeft), press(ControlLeft) with a browser
  that accepts every call: one release each of keys 529 and 528 is appended and sent, and
  the pressed-set ends empty.
\<close>

theorem key_actions_balance_witness:
  "range_order (balance_h
     [KeyAction KeyActionPress 529, KeyAction KeyActionPress 528, KeyAction KeyActionPress 529]
     Map.empty) [529, 528]
   \<and> balance [529, 528]
       [KeyAction KeyActionPress 529, KeyAction KeyActionPress 528, KeyAction KeyActionPress 529] =
       [KeyAction KeyActionPress 529, KeyAction KeyActionPress 528, KeyAction KeyActionPress 529,
        KeyAction KeyActionRelease 529, KeyAction KeyActionRelease 528]
   \<and> fst (KeyActions_Do test_Info test_mod br_ok [529, 528]
       [KeyAction KeyActionPress 529, KeyAction KeyActionPress 528, KeyAction KeyActionPress 529]
       init_state) = Return None
   \<and> pressed (snd (KeyActions_Do test_Info test_mod br_ok [529, 528]
       [KeyAction KeyActionPress 529, KeyAction KeyActionPress 528, KeyAction KeyActionPress 529]
       init_state)) = {}
   \<and> calls (snd (KeyActions_Do test_Info test_mod br_ok [529, 528]
       [KeyAction KeyActionPress 529, KeyAction KeyActionPress 528, KeyAction KeyActionPress 529]
       init_state)) =
       [InputDispatchKeyEvent KeyDown 529 2, InputDispatchKeyEvent KeyDown 528 10,
        InputDispatchKeyEvent KeyDown 529 10, InputDispatchKeyEvent KeyUp 529 8,
        InputDispatchKeyEvent KeyUp 528 0]"
proof -
  have c: "calls (snd (KeyActions_Do test_Info test_mod br_ok [529, 528]
       [KeyAction KeyActionPress 529, KeyAction KeyActionPress 528, KeyAction KeyActionPress 529]
       init_state)) =
       [InputDispatchKeyEvent KeyDown 529 2, InputDispatchKeyEvent KeyDown 528 10,
        InputDispatchKeyEvent KeyDown 529 10, InputDispatchKeyEvent KeyUp 529 8,
        InputDispatchKeyEvent KeyUp 528 0]"
    by (simp add: KeyActions_Do_def balance_def Keyboard_Press_def Keyboard_Release_def
        Call_def err_of_def br_ok_def Let_def init_state_def modifiers_def modifiers_of_def
        test_Info_def test_mod_def insert_Diff_if)
  have r: "range_order (balance_h
     [KeyAction KeyActionPress 529, KeyAction KeyActionPress 528, KeyAction KeyActionPress 529]
     Map.empty) [529, 528]"
    by (auto simp: range_order_def)
  have f: "fst (KeyActions_Do test_Info test_mod br_ok [529, 528]
       [KeyAction KeyActionPress 529, KeyAction KeyActionPress 528, KeyAction KeyActionPress 529]
       init_state) = Return None"
    by (simp add: KeyActions_Do_def balance_def Keyboard_Press_def Keyboard_Release_def
        Call_def err_of_def br_ok_def test_Info_def Let_def)
  show ?thesis
    using r f c key_actions_balance [of
      "[KeyAction KeyActionPress 529, KeyAction KeyActionPress 528, KeyAction KeyActionPress 529]"
      "[529, 528]" test_Info test_mod br_ok init_state]
    by (simp add: last_action_def init_state_def)
qed

end
